theory Spec2Isabelle
  imports Main
begin

section \<open>Affine expressions and maps\<close>

text \<open>
  An affine expression is a tree over dimension and symbol positions, constants and the
  binary opcodes of AffineExprKind. Dimensions and symbols are referenced by position only.
  Constants are \<open>int64_t\<close> in the source; they are modelled as unbounded integers.
\<close>

datatype AffineExprKind = Add | Mul | Mod | FloorDiv | CeilDiv

datatype AffineExpr =
    AffineDimExpr nat
  | AffineSymbolExpr nat
  | AffineConstantExpr int
  | AffineBinaryOpExpr AffineExprKind AffineExpr AffineExpr

record AffineMap =
  numDims :: nat
  numSymbols :: nat
  results :: "AffineExpr list"

definition getNumInputs :: "AffineMap \<Rightarrow> nat" where
  "getNumInputs m = numDims m + numSymbols m"

section \<open>Values and their defining operations\<close>

datatype Type = IndexType | MemRefType (getMemorySpace: nat) | OtherType

definition isIndex :: "Type \<Rightarrow> bool" where
  "isIndex t = (t = IndexType)"

definition isa_MemRefType :: "Type \<Rightarrow> bool" where
  "isa_MemRefType t = (case t of MemRefType _ \<Rightarrow> True | _ \<Rightarrow> False)"

text \<open>
  The operation kinds the affine classification distinguishes. An \<open>affine.apply\<close>
  carries its map attribute.
\<close>

datatype OpKind = ConstantOp | AffineApplyOp AffineMap | DimOp | OtherOp

text \<open>
  A Value is a block argument or an operation result. The first field is the identity of
  the Value (the pointer of the source): two distinct SSA values carry distinct
  identities, so equality of the terms is pointer equality. A block argument records
  whether the region holding its block belongs to a function; an operation records
  whether its containing region does, and its operands.
\<close>

datatype Value =
    BlockArgument nat Type bool
  | OpResult nat Type Operation
and Operation =
    Operation (opKind: OpKind) (inFunctionRegion: bool) (getOperands: "Value list")

fun getType :: "Value \<Rightarrow> Type" where
  "getType (BlockArgument i t f) = t"
| "getType (OpResult i t opn) = t"

fun getDefiningOp :: "Value \<Rightarrow> Operation option" where
  "getDefiningOp (BlockArgument i t f) = None"
| "getDefiningOp (OpResult i t opn) = Some opn"

definition isa_ConstantOp :: "Operation \<Rightarrow> bool" where
  "isa_ConstantOp opn = (opKind opn = ConstantOp)"

definition isa_DimOp :: "Operation \<Rightarrow> bool" where
  "isa_DimOp opn = (opKind opn = DimOp)"

definition isa_AffineApplyOp :: "Operation \<Rightarrow> bool" where
  "isa_AffineApplyOp opn = (case opKind opn of AffineApplyOp m \<Rightarrow> True | _ \<Rightarrow> False)"

text \<open>\<open>dimOp.getOperand()\<close>: the single operand of a dim operation.\<close>

definition DimOp_getOperand :: "Operation \<Rightarrow> Value option" where
  "DimOp_getOperand opn = (case getOperands opn of [] \<Rightarrow> None | x # xs \<Rightarrow> Some x)"

text \<open>\<open>isTopLevelSymbol\<close> (AffineOps.cpp, line 51).\<close>

fun isTopLevelSymbol :: "Value \<Rightarrow> bool" where
  "isTopLevelSymbol (BlockArgument i t f) = f"
| "isTopLevelSymbol (OpResult i t opn) = inFunctionRegion opn"

text \<open>
  \<open>isValidDim\<close> (line 60) with \<open>AffineApplyOp::isValidDim\<close> (line 206) inlined as
  the \<open>list_all\<close> over the operands.
\<close>

fun isValidDim :: "Value \<Rightarrow> bool" where
  "isValidDim (BlockArgument i t f) = (if \<not> isIndex t then False else True)"
| "isValidDim (OpResult i t (Operation k f ops)) =
     (if \<not> isIndex t then False
      else if f \<or> k = ConstantOp then True
      else (case k of
              AffineApplyOp m \<Rightarrow> list_all isValidDim ops
            | DimOp \<Rightarrow> (case ops of [] \<Rightarrow> False | x # xs \<Rightarrow> isTopLevelSymbol x)
            | _ \<Rightarrow> False))"

text \<open>
  \<open>isValidSymbol\<close> (line 85) with \<open>AffineApplyOp::isValidSymbol\<close> (line 213).
\<close>

fun isValidSymbol :: "Value \<Rightarrow> bool" where
  "isValidSymbol (BlockArgument i t f) =
     (if \<not> isIndex t then False else isTopLevelSymbol (BlockArgument i t f))"
| "isValidSymbol (OpResult i t (Operation k f ops)) =
     (if \<not> isIndex t then False
      else if f \<or> k = ConstantOp then True
      else (case k of
              AffineApplyOp m \<Rightarrow> list_all isValidSymbol ops
            | DimOp \<Rightarrow> (case ops of [] \<Rightarrow> False | x # xs \<Rightarrow> isTopLevelSymbol x)
            | _ \<Rightarrow> False))"

section \<open>The affine algebra the composition relies on\<close>

text \<open>
  A replacement vector is a \<open>SmallVector<AffineExpr>\<close>; an entry that was
  default-constructed and never assigned is the null expression, \<open>None\<close> here.
  Functions that can hit an assertion of the source, or dereference a null expression,
  return an option: \<open>None\<close> is the aborted run.
\<close>

text \<open>
  Modelled from the spec: \<open>AffineExpr::replaceDimsAndSymbols\<close> (lib/IR/AffineExpr.cpp
  is not under src/). Dimension \<open>i\<close> becomes \<open>dimReplacements[i]\<close> and symbol
  \<open>j\<close> becomes \<open>symReplacements[j]\<close>; a position beyond the end of its vector is
  left as it is (the callers pass \<open>{}\<close> to keep all dimensions or all symbols).
\<close>

fun replaceDimsAndSymbols_expr ::
  "AffineExpr option list \<Rightarrow> AffineExpr option list \<Rightarrow> AffineExpr \<Rightarrow> AffineExpr option" where
  "replaceDimsAndSymbols_expr ds ss (AffineDimExpr i) =
     (if i \<ge> length ds then Some (AffineDimExpr i) else ds ! i)"
| "replaceDimsAndSymbols_expr ds ss (AffineSymbolExpr j) =
     (if j \<ge> length ss then Some (AffineSymbolExpr j) else ss ! j)"
| "replaceDimsAndSymbols_expr ds ss (AffineConstantExpr c) = Some (AffineConstantExpr c)"
| "replaceDimsAndSymbols_expr ds ss (AffineBinaryOpExpr k a b) =
     (case replaceDimsAndSymbols_expr ds ss a of
        None \<Rightarrow> None
      | Some a' \<Rightarrow>
          (case replaceDimsAndSymbols_expr ds ss b of
             None \<Rightarrow> None
           | Some b' \<Rightarrow> Some (AffineBinaryOpExpr k a' b')))"

text \<open>
  Modelled from the spec: \<open>AffineMap::replaceDimsAndSymbols\<close> (lib/IR/AffineMap.cpp is
  not under src/): every result is rewritten, and the new map has the given numbers of
  dimensions and symbols.
\<close>

definition replaceDimsAndSymbols ::
  "AffineMap \<Rightarrow> AffineExpr option list \<Rightarrow> AffineExpr option list \<Rightarrow> nat \<Rightarrow> nat
     \<Rightarrow> AffineMap option" where
  "replaceDimsAndSymbols m dimReplacements symReplacements numResultDims numResultSyms =
     (case those (map (replaceDimsAndSymbols_expr dimReplacements symReplacements) (results m)) of
        None \<Rightarrow> None
      | Some rs \<Rightarrow>
          Some \<lparr> numDims = numResultDims, numSymbols = numResultSyms, results = rs \<rparr>)"

text \<open>
  Modelled from the spec: \<open>AffineMap::compose\<close> (not under src/), the mathematical
  composition \<open>this(map(...))\<close>. The symbols are concatenated, those of \<open>this\<close>
  first: the symbols of \<open>map\<close> are shifted by the number of symbols of \<open>this\<close>,
  and every dimension of \<open>this\<close> is replaced by the corresponding result of \<open>map\<close>.
  The number of dimensions of \<open>this\<close> must be the number of results of \<open>map\<close>.
\<close>

definition AffineMap_compose :: "AffineMap \<Rightarrow> AffineMap \<Rightarrow> AffineMap option" where
  "AffineMap_compose this m =
     (if numDims this \<noteq> length (results m) then None
      else
        let nDims = numDims m;
            numSymbolsThisMap = numSymbols this;
            nSymbols = numSymbolsThisMap + numSymbols m;
            newDims = map (\<lambda>idx. Some (AffineDimExpr idx)) [0..<nDims];
            newSymbols = map (\<lambda>idx. Some (AffineSymbolExpr (idx + numSymbolsThisMap)))
                             [0..<numSymbols m]
                         @ replicate numSymbolsThisMap None
        in (case replaceDimsAndSymbols m newDims newSymbols nDims nSymbols of
              None \<Rightarrow> None
            | Some newMap \<Rightarrow>
                (case those (map (replaceDimsAndSymbols_expr (map Some (results newMap)) [])
                                 (results this)) of
                   None \<Rightarrow> None
                 | Some exprs \<Rightarrow>
                     Some \<lparr> numDims = nDims, numSymbols = nSymbols, results = exprs \<rparr>)))"

text \<open>
  Modelled from the spec: \<open>simplifyAffineMap\<close> (not under src/), the expression-level
  algebraic simplification (constant folding, identity elimination) applied to every
  result. The model brings a linear expression (sums, and products with a constant, of
  dimensions, symbols and constants) to the form
  \<open>d\<^sub>i * c\<^sub>i + ... + s\<^sub>j * c\<^sub>j + ... + c\<close> without zero terms, and leaves
  every other expression as it is. \<open>flatten\<close> gives the coefficients: first the
  dimensions, then the symbols, last the constant term.
\<close>

definition unitVector :: "nat \<Rightarrow> nat \<Rightarrow> int list" where
  "unitVector n p = (replicate n 0)[p := 1]"

fun flatten :: "nat \<Rightarrow> nat \<Rightarrow> AffineExpr \<Rightarrow> int list option" where
  "flatten nd ns (AffineDimExpr p) =
     (if p < nd then Some (unitVector (nd + ns + 1) p) else None)"
| "flatten nd ns (AffineSymbolExpr p) =
     (if p < ns then Some (unitVector (nd + ns + 1) (nd + p)) else None)"
| "flatten nd ns (AffineConstantExpr c) = Some ((replicate (nd + ns + 1) 0)[nd + ns := c])"
| "flatten nd ns (AffineBinaryOpExpr k a b) =
     (case k of
        Add \<Rightarrow>
          (case (flatten nd ns a, flatten nd ns b) of
             (Some u, Some v) \<Rightarrow> Some (map2 (+) u v)
           | _ \<Rightarrow> None)
      | Mul \<Rightarrow>
          (case b of
             AffineConstantExpr c \<Rightarrow> map_option (map (\<lambda>x. x * c)) (flatten nd ns a)
           | _ \<Rightarrow> None)
      | _ \<Rightarrow> None)"

definition mulByConstant :: "AffineExpr \<Rightarrow> int \<Rightarrow> AffineExpr" where
  "mulByConstant e c = (if c = 1 then e else AffineBinaryOpExpr Mul e (AffineConstantExpr c))"

definition addTerm :: "AffineExpr \<Rightarrow> AffineExpr \<Rightarrow> AffineExpr" where
  "addTerm acc t = (if acc = AffineConstantExpr 0 then t else AffineBinaryOpExpr Add acc t)"

definition toAffineExpr :: "nat \<Rightarrow> nat \<Rightarrow> int list \<Rightarrow> AffineExpr" where
  "toAffineExpr nd ns eq =
     (let ids = map AffineDimExpr [0..<nd] @ map AffineSymbolExpr [0..<ns];
          terms = map (\<lambda>(e, c). mulByConstant e c) (filter (\<lambda>(e, c). c \<noteq> 0) (zip ids eq));
          expr = foldl addTerm (AffineConstantExpr 0) terms;
          constTerm = eq ! (nd + ns)
      in if constTerm = 0 then expr else addTerm expr (AffineConstantExpr constTerm))"

definition simplifyAffineExpr :: "AffineExpr \<Rightarrow> nat \<Rightarrow> nat \<Rightarrow> AffineExpr" where
  "simplifyAffineExpr e nd ns =
     (case flatten nd ns e of None \<Rightarrow> e | Some eq \<Rightarrow> toAffineExpr nd ns eq)"

definition simplifyAffineMap :: "AffineMap \<Rightarrow> AffineMap" where
  "simplifyAffineMap m =
     m \<lparr> results := map (\<lambda>e. simplifyAffineExpr e (numDims m) (numSymbols m)) (results m) \<rparr>"

text \<open>
  Modelled from the spec: \<open>AffineMap::walkExprs\<close> (not under src/) visits every
  subexpression of every result. \<open>markUsed\<close> is the walk with the callback of
  \<open>canonicalizeMapAndOperands\<close> (lines 628 to 633), which sets the bit of every
  dimension and symbol it meets; writing a bit beyond the end of a bit vector aborts.
\<close>

fun markUsed :: "AffineExpr \<Rightarrow> bool list \<times> bool list \<Rightarrow> (bool list \<times> bool list) option" where
  "markUsed (AffineDimExpr p) (usedDims, usedSyms) =
     (if p < length usedDims then Some (usedDims[p := True], usedSyms) else None)"
| "markUsed (AffineSymbolExpr p) (usedDims, usedSyms) =
     (if p < length usedSyms then Some (usedDims, usedSyms[p := True]) else None)"
| "markUsed (AffineConstantExpr c) used = Some used"
| "markUsed (AffineBinaryOpExpr k a b) used =
     (case markUsed a used of None \<Rightarrow> None | Some used' \<Rightarrow> markUsed b used')"

fun walkExprs_markUsed ::
  "AffineExpr list \<Rightarrow> bool list \<times> bool list \<Rightarrow> (bool list \<times> bool list) option" where
  "walkExprs_markUsed [] used = Some used"
| "walkExprs_markUsed (e # es) used =
     (case markUsed e used of None \<Rightarrow> None | Some used' \<Rightarrow> walkExprs_markUsed es used')"

text \<open>
  The value of an expression on integer values for the dimensions and symbols. The
  divisor of \<open>mod\<close>, \<open>floordiv\<close> and \<open>ceildiv\<close> must be positive; a position without
  a value has no result.
\<close>

fun evalExpr :: "int list \<Rightarrow> int list \<Rightarrow> AffineExpr \<Rightarrow> int option" where
  "evalExpr dv sv (AffineDimExpr i) = (if i < length dv then Some (dv ! i) else None)"
| "evalExpr dv sv (AffineSymbolExpr j) = (if j < length sv then Some (sv ! j) else None)"
| "evalExpr dv sv (AffineConstantExpr c) = Some c"
| "evalExpr dv sv (AffineBinaryOpExpr k a b) =
     (case (evalExpr dv sv a, evalExpr dv sv b) of
        (Some x, Some y) \<Rightarrow>
          (case k of
             Add \<Rightarrow> Some (x + y)
           | Mul \<Rightarrow> Some (x * y)
           | Mod \<Rightarrow> (if y \<le> 0 then None else Some (x mod y))
           | FloorDiv \<Rightarrow> (if y \<le> 0 then None else Some (x div y))
           | CeilDiv \<Rightarrow> (if y \<le> 0 then None else Some (- ((- x) div y))))
      | _ \<Rightarrow> None)"

definition evalMap :: "AffineMap \<Rightarrow> int list \<Rightarrow> int list option" where
  "evalMap m vals =
     those (map (evalExpr (take (numDims m) vals) (drop (numDims m) vals)) (results m))"

section \<open>The affine.apply normalizer\<close>

text \<open>
  \<open>dyn_cast_or_null<AffineApplyOp>(t->getDefiningOp())\<close>: the map and the operands of
  the \<open>affine.apply\<close> that defines the value, when one does.
\<close>

fun dyn_cast_AffineApplyOp :: "Value \<Rightarrow> (AffineMap \<times> Value list) option" where
  "dyn_cast_AffineApplyOp (BlockArgument i t f) = None"
| "dyn_cast_AffineApplyOp (OpResult i t opn) =
     (case opKind opn of AffineApplyOp m \<Rightarrow> Some (m, getOperands opn) | _ \<Rightarrow> None)"

definition isa_and_nonnull_AffineApplyOp :: "Value \<Rightarrow> bool" where
  "isa_and_nonnull_AffineApplyOp v = (dyn_cast_AffineApplyOp v \<noteq> None)"

text \<open>
  The members of \<open>AffineApplyNormalizer\<close> (lines 250 to 299). The DenseMap
  \<open>dimValueToPosition\<close> is an association list in insertion order; its size is its
  length, since a key is inserted only when absent. \<open>affineMap\<close> is null until the
  constructor assigns it.
\<close>

record AffineApplyNormalizer =
  dimValueToPosition :: "(Value \<times> nat) list"
  reorderedDims :: "Value list"
  concatenatedSymbols :: "Value list"
  affineMap :: "AffineMap option"

definition kMaxAffineApplyDepth :: nat where
  "kMaxAffineApplyDepth = 1"

definition emptyNormalizer :: AffineApplyNormalizer where
  "emptyNormalizer =
     \<lparr> dimValueToPosition = [], reorderedDims = [], concatenatedSymbols = [], affineMap = None \<rparr>"

definition getOperandsOfNormalizer :: "AffineApplyNormalizer \<Rightarrow> Value list" where
  "getOperandsOfNormalizer n = reorderedDims n @ concatenatedSymbols n"

text \<open>\<open>renumberOneDim\<close> (line 302).\<close>

definition renumberOneDim :: "Value \<Rightarrow> AffineApplyNormalizer \<Rightarrow> AffineExpr \<times> AffineApplyNormalizer" where
  "renumberOneDim v this =
     (case map_of (dimValueToPosition this) v of
        Some pos \<Rightarrow> (AffineDimExpr pos, this)
      | None \<Rightarrow>
          (AffineDimExpr (length (dimValueToPosition this)),
           this \<lparr> dimValueToPosition :=
                    dimValueToPosition this @ [(v, length (dimValueToPosition this))],
                  reorderedDims := reorderedDims this @ [v] \<rparr>))"

text \<open>
  \<open>renumber\<close> (line 314). \<open>renumberDims\<close> is its first loop, over
  \<open>other.reorderedDims\<close>; looking up a value that \<open>other.dimValueToPosition\<close> does
  not hold aborts.
\<close>

fun renumberDims ::
  "AffineApplyNormalizer \<Rightarrow> Value list \<Rightarrow> AffineExpr option list \<times> AffineApplyNormalizer
     \<Rightarrow> (AffineExpr option list \<times> AffineApplyNormalizer) option" where
  "renumberDims other [] acc = Some acc"
| "renumberDims other (v # vs) (dimRemapping, this) =
     (case map_of (dimValueToPosition other) v of
        None \<Rightarrow> None
      | Some pos \<Rightarrow>
          (let resized = (if length dimRemapping \<le> pos
                          then dimRemapping @ replicate (pos + 1 - length dimRemapping) None
                          else dimRemapping);
               (e, this') = renumberOneDim v this
           in renumberDims other vs (resized[pos := Some e], this')))"

definition renumber ::
  "AffineApplyNormalizer \<Rightarrow> AffineApplyNormalizer \<Rightarrow> (AffineMap \<times> AffineApplyNormalizer) option" where
  "renumber other this =
     (case renumberDims other (reorderedDims other) ([], this) of
        None \<Rightarrow> None
      | Some (dimRemapping, this1) \<Rightarrow>
          (let nSymbols = length (concatenatedSymbols this1);
               numOtherSymbols = length (concatenatedSymbols other);
               symRemapping = map (\<lambda>idx. Some (AffineSymbolExpr (idx + nSymbols)))
                                  [0..<numOtherSymbols];
               this2 = this1 \<lparr> concatenatedSymbols :=
                                 concatenatedSymbols this1 @ concatenatedSymbols other \<rparr>
           in (case affineMap other of
                 None \<Rightarrow> None
               | Some m \<Rightarrow>
                   (case replaceDimsAndSymbols m dimRemapping symRemapping
                           (length dimRemapping) (length symRemapping) of
                      None \<Rightarrow> None
                    | Some renumbered \<Rightarrow> Some (renumbered, this2)))))"

text \<open>\<open>indicesFromAffineApplyOp\<close> (line 338).\<close>

definition indicesFromAffineApplyOp :: "Value list \<Rightarrow> nat list" where
  "indicesFromAffineApplyOp operands =
     filter (\<lambda>i. isa_and_nonnull_AffineApplyOp (operands ! i)) [0..<length operands]"

text \<open>
  \<open>promoteComposedSymbolsAsDims\<close> (line 360). \<open>promoteLoop\<close> is its loop over the
  symbol positions.
\<close>

fun promoteLoop ::
  "nat list \<Rightarrow> nat \<Rightarrow> nat list \<Rightarrow> AffineExpr option list \<times> nat \<times> nat
     \<Rightarrow> AffineExpr option list \<times> nat \<times> nat" where
  "promoteLoop symPositions nDims [] acc = acc"
| "promoteLoop symPositions nDims (i # rest) (symReplacements, numNewDims, numNewSymbols) =
     (if i \<in> set symPositions
      then promoteLoop symPositions nDims rest
             (symReplacements[i := Some (AffineDimExpr (nDims + numNewDims))],
              numNewDims + 1, numNewSymbols)
      else promoteLoop symPositions nDims rest
             (symReplacements[i := Some (AffineSymbolExpr numNewSymbols)],
              numNewDims, numNewSymbols + 1))"

definition promoteComposedSymbolsAsDims :: "AffineMap \<Rightarrow> Value list \<Rightarrow> AffineMap option" where
  "promoteComposedSymbolsAsDims m symbols =
     (if symbols = [] then Some m
      else if \<not> list_all isValidSymbol symbols then None
      else
        let symPositions = indicesFromAffineApplyOp symbols
        in if symPositions = [] then Some m
           else
             let (symReplacements, numNewDims, numNewSymbols) =
                   promoteLoop symPositions (numDims m) [0..<numSymbols m]
                     (replicate (numSymbols m) None, 0, 0)
             in if \<not> numSymbols m \<ge> numNewDims then None
                else replaceDimsAndSymbols m [] symReplacements
                       (numDims m + numNewDims) numNewSymbols)"

text \<open>\<open>ArrayRef::take_back\<close>: the last \<open>n\<close> elements, all of them when there are fewer.\<close>

definition take_back :: "nat \<Rightarrow> 'a list \<Rightarrow> 'a list" where
  "take_back n xs = drop (length xs - n) xs"

text \<open>
  The two loops of the constructor (lines 462 to 474 and 478 to 509) over the operands,
  with the index \<open>i\<close> of the operand. The second takes the constructor of the nested
  normalizer as \<open>nested\<close>.
\<close>

fun dispatchOperands ::
  "nat \<Rightarrow> nat \<Rightarrow> Value list \<Rightarrow> AffineExpr list \<times> AffineApplyNormalizer
     \<Rightarrow> (AffineExpr list \<times> AffineApplyNormalizer) option" where
  "dispatchOperands mapNumDims i [] acc = Some acc"
| "dispatchOperands mapNumDims i (t # ts) (auxiliaryExprs, this) =
     (if \<not> isIndex (getType t) then None
      else if i < mapNumDims
      then (let (e, this') = renumberOneDim t this
            in dispatchOperands mapNumDims (i + 1) ts (auxiliaryExprs @ [e], this'))
      else dispatchOperands mapNumDims (i + 1) ts
             (auxiliaryExprs,
              this \<lparr> concatenatedSymbols := concatenatedSymbols this @ [t] \<rparr>))"

fun composeOperands ::
  "(AffineMap \<Rightarrow> Value list \<Rightarrow> AffineApplyNormalizer option) \<Rightarrow> nat \<Rightarrow> nat \<Rightarrow> Value list
     \<Rightarrow> AffineExpr list \<times> AffineApplyNormalizer
     \<Rightarrow> (AffineExpr list \<times> AffineApplyNormalizer) option" where
  "composeOperands nested numDimsBeforeRewrite i [] acc = Some acc"
| "composeOperands nested numDimsBeforeRewrite i (t # ts) (auxiliaryExprs, this) =
     (case dyn_cast_AffineApplyOp t of
        Some (affineApplyMap, affineApplyOperands) \<Rightarrow>
          (case nested affineApplyMap affineApplyOperands of
             None \<Rightarrow> None
           | Some normalizer \<Rightarrow>
               (case renumber normalizer this of
                  None \<Rightarrow> None
                | Some (renumberedMap, this') \<Rightarrow>
                    (case results renumberedMap of
                       [] \<Rightarrow> None
                     | e # es \<Rightarrow>
                         composeOperands nested numDimsBeforeRewrite (i + 1) ts
                           (auxiliaryExprs @ [e], this'))))
      | None \<Rightarrow>
          (if i < numDimsBeforeRewrite
           then (let (e, this') = renumberOneDim t this
                 in composeOperands nested numDimsBeforeRewrite (i + 1) ts
                      (auxiliaryExprs @ [e], this'))
           else composeOperands nested numDimsBeforeRewrite (i + 1) ts
                  (auxiliaryExprs,
                   this \<lparr> concatenatedSymbols := concatenatedSymbols this @ [t] \<rparr>)))"

text \<open>
  The constructor \<open>AffineApplyNormalizer(map, operands)\<close> (line 429). The thread-local
  counter \<open>affineApplyDepth()\<close> is incremented by the delegated default constructor and
  decremented by the destructor, so a constructor that starts with the counter at
  \<open>depth0\<close> runs its body, and starts its nested normalizers, with the counter at
  \<open>depth0 + 1\<close>: the counter is the first argument.
\<close>

function AffineApplyNormalizer_ctor ::
  "nat \<Rightarrow> AffineMap \<Rightarrow> Value list \<Rightarrow> AffineApplyNormalizer option" where
  "AffineApplyNormalizer_ctor depth0 map0 operands =
     (let depth = depth0 + 1 in
      if getNumInputs map0 \<noteq> length operands then None
      else
        let numDimsBeforeRewrite = numDims map0 in
        (case promoteComposedSymbolsAsDims map0 (take_back (numSymbols map0) operands) of
           None \<Rightarrow> None
         | Some m \<Rightarrow>
             (case (if \<not> depth \<le> kMaxAffineApplyDepth
                    then dispatchOperands (numDims m) 0 operands ([], emptyNormalizer)
                    else if \<not> numDimsBeforeRewrite \<le> length operands then None
                    else composeOperands (\<lambda>am aops. AffineApplyNormalizer_ctor depth am aops)
                           numDimsBeforeRewrite 0 operands ([], emptyNormalizer)) of
                None \<Rightarrow> None
              | Some (auxiliaryExprs, this) \<Rightarrow>
                  if auxiliaryExprs = [] then Some (this \<lparr> affineMap := Some m \<rparr>)
                  else if \<not> length (concatenatedSymbols this) \<ge> numSymbols m then None
                  else
                    let nDims = length (dimValueToPosition this);
                        nSymbols = length (concatenatedSymbols this) - numSymbols m;
                        auxiliaryMap = \<lparr> numDims = nDims, numSymbols = nSymbols,
                                         results = auxiliaryExprs \<rparr>
                    in (case AffineMap_compose m auxiliaryMap of
                          None \<Rightarrow> None
                        | Some composed \<Rightarrow>
                            Some (this \<lparr> affineMap := Some (simplifyAffineMap composed) \<rparr>)))))"
  by pat_completeness auto
termination
  by (relation "measure (\<lambda>(depth0, m, operands). kMaxAffineApplyDepth + 1 - depth0)") auto

declare AffineApplyNormalizer_ctor.simps [simp del]

section \<open>Canonicalization\<close>

text \<open>
  \<open>canonicalizePromotedSymbols\<close> (line 573); \<open>promotedSymbolsLoop\<close> is its loop over
  the operands, with the index \<open>i\<close> of the operand. The pointer \<open>map\<close> is never null
  in the callers.
\<close>

fun promotedSymbolsLoop ::
  "nat \<Rightarrow> nat \<Rightarrow> nat \<Rightarrow> Value list
     \<Rightarrow> nat \<times> nat \<times> AffineExpr option list \<times> Value list \<times> Value list
     \<Rightarrow> nat \<times> nat \<times> AffineExpr option list \<times> Value list \<times> Value list" where
  "promotedSymbolsLoop nDims oldNumSyms i [] acc = acc"
| "promotedSymbolsLoop nDims oldNumSyms i (v # vs)
       (nextDim, nextSym, dimRemapping, resultOperands, remappedSymbols) =
     (if i < nDims
      then (if isValidSymbol v
            then promotedSymbolsLoop nDims oldNumSyms (i + 1) vs
                   (nextDim, nextSym + 1,
                    dimRemapping[i := Some (AffineSymbolExpr (oldNumSyms + nextSym))],
                    resultOperands, remappedSymbols @ [v])
            else promotedSymbolsLoop nDims oldNumSyms (i + 1) vs
                   (nextDim + 1, nextSym,
                    dimRemapping[i := Some (AffineDimExpr nextDim)],
                    resultOperands @ [v], remappedSymbols))
      else promotedSymbolsLoop nDims oldNumSyms (i + 1) vs
             (nextDim, nextSym, dimRemapping, resultOperands @ [v], remappedSymbols))"

definition canonicalizePromotedSymbols ::
  "AffineMap \<Rightarrow> Value list \<Rightarrow> (AffineMap \<times> Value list) option" where
  "canonicalizePromotedSymbols m operands =
     (if operands = [] then Some (m, operands)
      else if getNumInputs m \<noteq> length operands then None
      else
        let oldNumSyms = numSymbols m;
            (nextDim, nextSym, dimRemapping, resultOperands, remappedSymbols) =
               promotedSymbolsLoop (numDims m) oldNumSyms 0 operands
                 (0, 0, replicate (numDims m) None, [], []);
            resultOperands' = resultOperands @ remappedSymbols
        in (case replaceDimsAndSymbols m dimRemapping [] nextDim (oldNumSyms + nextSym) of
              None \<Rightarrow> None
            | Some m' \<Rightarrow>
                if getNumInputs m' \<noteq> length resultOperands' then None
                else Some (m', resultOperands')))"

text \<open>
  The two loops of \<open>canonicalizeMapAndOperands\<close> (lines 643 to 654 for the dimensions,
  658 to 670 for the symbols) are the same code, up to the expression built
  (\<open>mk\<close>: a dimension or a symbol) and the offset of the operand
  (\<open>0\<close>, or the number of dimensions). The state is \<open>nextDim\<close> (or \<open>nextSym\<close>),
  the remapping vector, \<open>resultOperands\<close> and the map \<open>seenDims\<close> (or
  \<open>seenSymbols\<close>), an association list.
\<close>

fun remapLoop ::
  "(nat \<Rightarrow> AffineExpr) \<Rightarrow> bool list \<Rightarrow> Value list \<Rightarrow> nat \<Rightarrow> nat list
     \<Rightarrow> nat \<times> AffineExpr option list \<times> Value list \<times> (Value \<times> AffineExpr) list
     \<Rightarrow> nat \<times> AffineExpr option list \<times> Value list \<times> (Value \<times> AffineExpr) list" where
  "remapLoop mk used operands offset [] acc = acc"
| "remapLoop mk used operands offset (i # rest) (next, remapping, resultOperands, seen) =
     (if used ! i
      then (case map_of seen (operands ! (i + offset)) of
              None \<Rightarrow>
                remapLoop mk used operands offset rest
                  (next + 1, remapping[i := Some (mk next)],
                   resultOperands @ [operands ! (i + offset)],
                   seen @ [(operands ! (i + offset), mk next)])
            | Some e \<Rightarrow>
                remapLoop mk used operands offset rest
                  (next, remapping[i := Some e], resultOperands, seen))
      else remapLoop mk used operands offset rest (next, remapping, resultOperands, seen))"

text \<open>\<open>canonicalizeMapAndOperands\<close> (line 615).\<close>

definition canonicalizeMapAndOperands ::
  "AffineMap \<Rightarrow> Value list \<Rightarrow> (AffineMap \<times> Value list) option" where
  "canonicalizeMapAndOperands m0 operands0 =
     (if operands0 = [] then Some (m0, operands0)
      else if getNumInputs m0 \<noteq> length operands0 then None
      else
        (case canonicalizePromotedSymbols m0 operands0 of
           None \<Rightarrow> None
         | Some (m, operands) \<Rightarrow>
             (case walkExprs_markUsed (results m)
                     (replicate (numDims m) False, replicate (numSymbols m) False) of
                None \<Rightarrow> None
              | Some (usedDims, usedSyms) \<Rightarrow>
                  let (nextDim, dimRemapping, resultOperands1, seenDims) =
                        remapLoop AffineDimExpr usedDims operands 0 [0..<numDims m]
                          (0, replicate (numDims m) None, [], []);
                      (nextSym, symRemapping, resultOperands, seenSymbols) =
                        remapLoop AffineSymbolExpr usedSyms operands (numDims m)
                          [0..<numSymbols m]
                          (0, replicate (numSymbols m) None, resultOperands1, [])
                  in (case replaceDimsAndSymbols m dimRemapping symRemapping nextDim nextSym of
                        None \<Rightarrow> None
                      | Some m' \<Rightarrow> Some (m', resultOperands)))))"

section \<open>Composition of a map with its operands\<close>

text \<open>
  \<open>composeAffineMapAndOperands\<close> (line 541). It is entered with the depth counter at
  \<open>0\<close>: no normalizer is alive when it is called. The last assertion is that the
  resulting map is not null.
\<close>

definition composeAffineMapAndOperands ::
  "AffineMap \<Rightarrow> Value list \<Rightarrow> (AffineMap \<times> Value list) option" where
  "composeAffineMapAndOperands m operands =
     (case AffineApplyNormalizer_ctor 0 m operands of
        None \<Rightarrow> None
      | Some normalizer \<Rightarrow>
          (case affineMap normalizer of
             None \<Rightarrow> None
           | Some normalizedMap \<Rightarrow>
               canonicalizeMapAndOperands normalizedMap (getOperandsOfNormalizer normalizer)))"

text \<open>
  \<open>fullyComposeAffineMapAndOperands\<close> (line 552): the loop may a priori run forever,
  so the result is an option, \<open>None\<close> when the loop does not return. A run that returns
  gives \<open>Some None\<close> when a pass aborted and \<open>Some (Some (map, operands))\<close> otherwise.
\<close>

partial_function (option) fullyComposeAffineMapAndOperands ::
  "AffineMap \<Rightarrow> Value list \<Rightarrow> (AffineMap \<times> Value list) option option" where
  "fullyComposeAffineMapAndOperands m operands =
     (if list_ex isa_and_nonnull_AffineApplyOp operands
      then (case composeAffineMapAndOperands m operands of
              None \<Rightarrow> Some None
            | Some (m', operands') \<Rightarrow> fullyComposeAffineMapAndOperands m' operands')
      else Some (Some (m, operands)))"

declare fullyComposeAffineMapAndOperands.simps [code]

text \<open>
  The length of the longest chain of \<open>affine.apply\<close> operations that ends in a value,
  and the longest over a list of operands: the measure of the loop above.
\<close>

fun applyDepth :: "Value \<Rightarrow> nat" where
  "applyDepth (BlockArgument i t f) = 0"
| "applyDepth (OpResult i t (Operation k f ops)) =
     (case k of
        AffineApplyOp m \<Rightarrow> Suc (foldr (\<lambda>v acc. max (applyDepth v) acc) ops 0)
      | _ \<Rightarrow> 0)"

definition maxApplyDepth :: "Value list \<Rightarrow> nat" where
  "maxApplyDepth operands = foldr (\<lambda>v acc. max (applyDepth v) acc) operands 0"

text \<open>
  The operands one level down: the operands that no \<open>affine.apply\<close> defines, and the
  operands of the \<open>affine.apply\<close> operations that define the others.
\<close>

definition leavesOf :: "Value list \<Rightarrow> Value set" where
  "leavesOf ts = {v \<in> set ts. \<not> isa_and_nonnull_AffineApplyOp v}
       \<union> {v. \<exists>t \<in> set ts. \<exists>m aops. dyn_cast_AffineApplyOp t = Some (m, aops) \<and> v \<in> set aops}"

text \<open>
  The value of a Value on an assignment \<open>env\<close> of integers to the leaves: the result of
  an \<open>affine.apply\<close> is the value of the first result of its map on the values of its
  operands, dimensions first; every other Value is a leaf.
\<close>

fun evalValue :: "(Value \<Rightarrow> int) \<Rightarrow> Value \<Rightarrow> int option" where
  "evalValue env (BlockArgument i t f) = Some (env (BlockArgument i t f))"
| "evalValue env (OpResult i t (Operation k f ops)) =
     (case k of
        AffineApplyOp m \<Rightarrow>
          (case those (map (evalValue env) ops) of
             None \<Rightarrow> None
           | Some vals \<Rightarrow>
               (case evalMap m vals of Some (r # rs) \<Rightarrow> Some r | _ \<Rightarrow> None))
      | _ \<Rightarrow> Some (env (OpResult i t (Operation k f ops))))"

definition evalMapOnOperands :: "(Value \<Rightarrow> int) \<Rightarrow> AffineMap \<Rightarrow> Value list \<Rightarrow> int list option" where
  "evalMapOnOperands env m operands =
     (case those (map (evalValue env) operands) of
        None \<Rightarrow> None
      | Some vals \<Rightarrow> evalMap m vals)"

section \<open>Verification of affine.dma_start\<close>

text \<open>
  A \<open>LogicalResult\<close>; a failure carries the diagnostic that \<open>emitOpError\<close> emitted.
\<close>

datatype LogicalResult = success | failure string

text \<open>
  The operands of an \<open>affine.dma_start\<close> and its three map attributes.
  \<open>getOperand\<close> asserts that the index is in range.
\<close>

record AffineDmaStartOp =
  dmaOperands :: "Value list"
  srcMap :: AffineMap
  dstMap :: AffineMap
  tagMap :: AffineMap

definition getOperand :: "AffineDmaStartOp \<Rightarrow> nat \<Rightarrow> Value option" where
  "getOperand dma i = (if i < length (dmaOperands dma) then Some (dmaOperands dma ! i) else None)"

definition getSrcMemRefOperandIndex :: "AffineDmaStartOp \<Rightarrow> nat" where
  "getSrcMemRefOperandIndex dma = 0"

definition getDstMemRefOperandIndex :: "AffineDmaStartOp \<Rightarrow> nat" where
  "getDstMemRefOperandIndex dma = getSrcMemRefOperandIndex dma + 1 + getNumInputs (srcMap dma)"

definition getTagMemRefOperandIndex :: "AffineDmaStartOp \<Rightarrow> nat" where
  "getTagMemRefOperandIndex dma = getDstMemRefOperandIndex dma + 1 + getNumInputs (dstMap dma)"

text \<open>
  \<open>AffineDmaStartOp::verify\<close> (line 860). \<open>getSrcMemorySpace\<close> and
  \<open>getDstMemorySpace\<close> (AffineOps.h, lines 173 and 194) read the memory space of the
  memref type; they are reached only after both types were checked.
\<close>

definition AffineDmaStartOp_verify :: "AffineDmaStartOp \<Rightarrow> LogicalResult option" where
  "AffineDmaStartOp_verify dma =
     (case getOperand dma (getSrcMemRefOperandIndex dma) of
        None \<Rightarrow> None
      | Some src \<Rightarrow>
          if \<not> isa_MemRefType (getType src)
          then Some (failure ''expected DMA source to be of memref type'')
          else
            (case getOperand dma (getDstMemRefOperandIndex dma) of
               None \<Rightarrow> None
             | Some dst \<Rightarrow>
                 if \<not> isa_MemRefType (getType dst)
                 then Some (failure ''expected DMA destination to be of memref type'')
                 else
                   (case getOperand dma (getTagMemRefOperandIndex dma) of
                      None \<Rightarrow> None
                    | Some tag \<Rightarrow>
                        if \<not> isa_MemRefType (getType tag)
                        then Some (failure ''expected DMA tag to be of memref type'')
                        else if getMemorySpace (getType src) = getMemorySpace (getType dst)
                        then Some (failure ''DMA should be between different memory spaces'')
                        else
                          let numInputsAllMaps =
                                getNumInputs (srcMap dma) + getNumInputs (dstMap dma)
                                + getNumInputs (tagMap dma)
                          in if length (dmaOperands dma) \<noteq> numInputsAllMaps + 3 + 1
                                \<and> length (dmaOperands dma) \<noteq> numInputsAllMaps + 3 + 1 + 2
                             then Some (failure ''incorrect number of operands'')
                             else Some success)))"

section \<open>Creating and folding with the OperationFolder\<close>

text \<open>
  Modelled from the spec: the types \<open>Value\<close>, \<open>Attribute\<close>, \<open>OpFoldResult\<close>,
  \<open>AbstractOperation\<close> and \<open>Dialect\<close> are declared outside src/; the model keeps of
  them what \<open>Operation::fold\<close> and the folder use. A value is the result \<open>i\<close> of the
  operation \<open>p\<close>, or some other value (a block argument). An \<open>OpFoldResult\<close> is what
  a hook answers for one result: a constant attribute, or an existing value. A hook is taken
  as applied to the operation it is registered for: from the constant attributes of the
  operands (\<open>None\<close> for an operand that is no constant) it answers \<open>None\<close> when it
  fails, and its results when it succeeds.
\<close>

type_synonym Attribute = nat

type_synonym Region = nat

datatype FolderValue = ResultOf nat nat | OtherValue nat

datatype OpFoldResult = FoldedAttribute Attribute | FoldedValue FolderValue

record AbstractOperation =
  foldHook :: "Attribute option list \<Rightarrow> OpFoldResult list option"

record Dialect =
  dialectId :: nat
  constantFoldHook :: "Attribute option list \<Rightarrow> Attribute list option"

text \<open>
  An operation as \<open>Operation::fold\<close> and the folder see it: its identity, the types of
  its results, its operands, its registered definition and its dialect (either may be
  null), and the region it is inserted in.
\<close>

record FolderOp =
  folderOpId :: nat
  getResultTypes :: "Type list"
  folderOpOperands :: "FolderValue list"
  getAbstractOperation :: "AbstractOperation option"
  getDialect :: "Dialect option"
  getParentRegion :: Region

definition getNumResults :: "FolderOp \<Rightarrow> nat" where
  "getNumResults opn = length (getResultTypes opn)"

definition getResults :: "FolderOp \<Rightarrow> FolderValue list" where
  "getResults opn = map (ResultOf (folderOpId opn)) [0..<getNumResults opn]"

text \<open>
  The IR: the operations that are linked into a block, the operand list of each, and the
  value attribute of each constant operation.
\<close>

record FolderIR =
  linkedOps :: "nat list"
  operandLists :: "(nat \<times> FolderValue list) list"
  constantAttrs :: "(nat \<times> Attribute) list"

text \<open>
  Modelled from the spec: \<open>OpBuilder::create\<close> (not under src/) builds the operation and
  links it at the insertion point. \<open>newOpId\<close> is the identity of an operation that the
  builder makes: one that no linked operation has.
\<close>

definition builder_create :: "FolderOp \<Rightarrow> FolderIR \<Rightarrow> FolderIR" where
  "builder_create opn ir =
     ir \<lparr> linkedOps := linkedOps ir @ [folderOpId opn],
          operandLists := operandLists ir @ [(folderOpId opn, folderOpOperands opn)] \<rparr>"

definition newOpId :: "FolderIR \<Rightarrow> nat" where
  "newOpId ir = Suc (foldr max (linkedOps ir) 0)"

text \<open>
  \<open>Operation::erase\<close> (Operation.cpp, line 421) removes the operation from its block and
  deletes it, its operands with it.
\<close>

definition erase :: "FolderOp \<Rightarrow> FolderIR \<Rightarrow> FolderIR" where
  "erase opn ir =
     ir \<lparr> linkedOps := removeAll (folderOpId opn) (linkedOps ir),
          operandLists := filter (\<lambda>e. fst e \<noteq> folderOpId opn) (operandLists ir) \<rparr>"

text \<open>
  \<open>Operation::fold\<close> (Operation.cpp, line 512): the hook of the registered definition
  first; when there is none or it fails, the hook of the dialect, whose constants are the
  results.
\<close>

definition Operation_fold :: "FolderOp \<Rightarrow> Attribute option list \<Rightarrow> OpFoldResult list option" where
  "Operation_fold opn operands =
     (case (case getAbstractOperation opn of
              None \<Rightarrow> None
            | Some abstractOp \<Rightarrow> foldHook abstractOp operands) of
        Some foldResults \<Rightarrow> Some foldResults
      | None \<Rightarrow>
          (case getDialect opn of
             None \<Rightarrow> None
           | Some dialect \<Rightarrow>
               (case constantFoldHook dialect operands of
                  None \<Rightarrow> None
                | Some constants \<Rightarrow> Some (map FoldedAttribute constants))))"

text \<open>
  The members of \<open>OperationFolder\<close> (FoldUtils.h, lines 99 to 120). \<open>foldScopes\<close> maps
  a region and a key of dialect, attribute and type to the constant operation that
  represents it; \<open>referencedDialects\<close> holds, for a constant operation, the dialects that
  refer to it. A dialect is known by its identity, \<open>None\<close> for the null dialect.
\<close>

type_synonym ConstantKey = "nat option \<times> Attribute \<times> Type"

record OperationFolder =
  foldScopes :: "((Region \<times> ConstantKey) \<times> nat) list"
  referencedDialects :: "(nat \<times> nat option) list"

text \<open>
  Modelled from the spec: \<open>matchPattern(value, m_Constant(&attr))\<close> (not under src/)
  gives the value attribute of the constant operation that defines the value, when one
  does.
\<close>

definition matchConstant :: "FolderIR \<Rightarrow> FolderValue \<Rightarrow> Attribute option" where
  "matchConstant ir v =
     (case v of ResultOf p i \<Rightarrow> map_of (constantAttrs ir) p | OtherValue n \<Rightarrow> None)"

text \<open>
  Modelled from the spec: \<open>OperationFolder::tryGetOrCreateConstant\<close> (declared in
  FoldUtils.h, line 110, defined outside src/). A new constant value is deduplicated by the
  key of owning dialect, constant attribute and result type, scoped per enclosing region:
  a prior materialization is reused if present; otherwise a new constant operation is
  created as the representative, at the start of the region.
\<close>

definition tryGetOrCreateConstant ::
  "Region \<Rightarrow> nat option \<Rightarrow> Attribute \<Rightarrow> Type \<Rightarrow> OperationFolder \<times> FolderIR
     \<Rightarrow> nat \<times> OperationFolder \<times> FolderIR" where
  "tryGetOrCreateConstant region dialect attr type st =
     (case st of (folder, ir) \<Rightarrow>
        (case map_of (foldScopes folder) (region, dialect, attr, type) of
           Some constOp \<Rightarrow> (constOp, folder, ir)
         | None \<Rightarrow>
             (let constOp = newOpId ir
              in (constOp,
                  folder \<lparr> foldScopes :=
                             foldScopes folder @ [((region, dialect, attr, type), constOp)] \<rparr>,
                  ir \<lparr> linkedOps := constOp # linkedOps ir,
                       operandLists := operandLists ir @ [(constOp, [])],
                       constantAttrs := constantAttrs ir @ [(constOp, attr)] \<rparr>))))"

text \<open>
  Modelled from the spec: the private \<open>OperationFolder::tryToFold(op, results)\<close>
  (declared in FoldUtils.h, line 104, defined outside src/), which on success populates
  \<open>results\<close> with the results of the folding. It calls \<open>Operation::fold\<close> with the
  constant attributes of the operands. \<open>materialize\<close> is its loop over the results of
  the operation: a result that folds to an existing value is replaced by that value, and
  one that folds to a constant by the result of the constant operation that represents
  it, which is recorded as referred to by the dialect. Every operation result that folds
  is replaced by its folded value: a hook that succeeds answers one value for each result
  of the operation, and the run aborts (\<open>None\<close>) on an answer of another length. The
  callback \<open>processGeneratedConstants\<close> is null by default and is left out.
\<close>

fun materialize ::
  "Region \<Rightarrow> nat option \<Rightarrow> (OpFoldResult \<times> Type) list
     \<Rightarrow> FolderValue list \<times> OperationFolder \<times> FolderIR
     \<Rightarrow> FolderValue list \<times> OperationFolder \<times> FolderIR" where
  "materialize region dialect [] acc = acc"
| "materialize region dialect ((FoldedValue repl, type) # rest) (results0, folder, ir) =
     materialize region dialect rest (results0 @ [repl], folder, ir)"
| "materialize region dialect ((FoldedAttribute attr, type) # rest) (results0, folder, ir) =
     (case tryGetOrCreateConstant region dialect attr type (folder, ir) of
        (constOp, folder1, ir1) \<Rightarrow>
          materialize region dialect rest
            (results0 @ [ResultOf constOp 0],
             folder1 \<lparr> referencedDialects :=
                         List.insert (constOp, dialect) (referencedDialects folder1) \<rparr>,
             ir1))"

definition OperationFolder_tryToFold_results ::
  "FolderOp \<Rightarrow> FolderValue list \<Rightarrow> OperationFolder \<times> FolderIR
     \<Rightarrow> (bool \<times> FolderValue list \<times> OperationFolder \<times> FolderIR) option" where
  "OperationFolder_tryToFold_results opn results0 st =
     (case st of (folder, ir) \<Rightarrow>
        (case Operation_fold opn (map (matchConstant ir) (folderOpOperands opn)) of
           None \<Rightarrow> Some (False, results0, folder, ir)
         | Some foldResults \<Rightarrow>
             if length foldResults \<noteq> getNumResults opn then None
             else (case materialize (getParentRegion opn) (map_option dialectId (getDialect opn))
                          (zip foldResults (getResultTypes opn)) (results0, folder, ir) of
                     (results1, folder', ir') \<Rightarrow> Some (True, results1, folder', ir'))))"

text \<open>
  \<open>OperationFolder::create\<close> (FoldUtils.h, line 61): the operation is built and linked,
  then folded; when folding fails the results are those of the operation, and when it
  succeeds the operation is erased if it has a result.
\<close>

definition OperationFolder_create ::
  "FolderOp \<Rightarrow> FolderValue list \<Rightarrow> OperationFolder \<times> FolderIR
     \<Rightarrow> (FolderValue list \<times> OperationFolder \<times> FolderIR) option" where
  "OperationFolder_create opn results0 st =
     (case st of (folder, ir) \<Rightarrow>
        (case OperationFolder_tryToFold_results opn results0 (folder, builder_create opn ir) of
           None \<Rightarrow> None
         | Some (succeeded, results1, folder', ir2) \<Rightarrow>
             if \<not> succeeded then Some (getResults opn, folder', ir2)
             else if getNumResults opn \<noteq> 0 then Some (results1, folder', erase opn ir2)
             else Some (results1, folder', ir2)))"

text \<open>
  The overload for an operation with one result (line 74) returns
  \<open>results.front()\<close>, which aborts on an empty vector.
\<close>

definition OperationFolder_create_OneResult ::
  "FolderOp \<Rightarrow> OperationFolder \<times> FolderIR
     \<Rightarrow> (FolderValue \<times> OperationFolder \<times> FolderIR) option" where
  "OperationFolder_create_OneResult opn st =
     (case OperationFolder_create opn [] st of
        None \<Rightarrow> None
      | Some (results1, folder', ir') \<Rightarrow>
          (case results1 of [] \<Rightarrow> None | r # rs \<Rightarrow> Some (r, folder', ir')))"

text \<open>
  The overload for an operation with no result (line 84): the operation is returned
  whatever \<open>tryToFold\<close> answered.
\<close>

definition OperationFolder_create_ZeroResult ::
  "FolderOp \<Rightarrow> OperationFolder \<times> FolderIR
     \<Rightarrow> (FolderOp \<times> OperationFolder \<times> FolderIR) option" where
  "OperationFolder_create_ZeroResult opn st =
     (case st of (folder, ir) \<Rightarrow>
        (case OperationFolder_tryToFold_results opn [] (folder, builder_create opn ir) of
           None \<Rightarrow> None
         | Some (succeeded, unused, folder', ir2) \<Rightarrow> Some (opn, folder', ir2)))"

text \<open>
  Modelled from the spec: the public \<open>OperationFolder::tryToFold(op)\<close> (declared in
  FoldUtils.h, line 45, defined outside src/). If folding succeeds, the uses of the
  results of the operation are replaced with the folded results, and the operation is
  erased only if it has at least one result: an operation with no result that folds is
  retained. \<open>replacementOf\<close> is what replaces an operand. The callbacks
  \<open>processGeneratedConstants\<close> and \<open>preReplaceAction\<close> are null by default and are
  left out.
\<close>

definition replacementOf :: "nat \<Rightarrow> FolderValue list \<Rightarrow> FolderValue \<Rightarrow> FolderValue" where
  "replacementOf opId folded v =
     (case v of
        ResultOf p i \<Rightarrow> if p = opId \<and> i < length folded then folded ! i else v
      | OtherValue n \<Rightarrow> v)"

definition replaceUsesOfResults :: "FolderOp \<Rightarrow> FolderValue list \<Rightarrow> FolderIR \<Rightarrow> FolderIR" where
  "replaceUsesOfResults opn folded ir =
     ir \<lparr> operandLists :=
            map (\<lambda>e. (fst e, map (replacementOf (folderOpId opn) folded) (snd e)))
                (operandLists ir) \<rparr>"

definition OperationFolder_tryToFold ::
  "FolderOp \<Rightarrow> OperationFolder \<times> FolderIR \<Rightarrow> (bool \<times> OperationFolder \<times> FolderIR) option" where
  "OperationFolder_tryToFold opn st =
     (case OperationFolder_tryToFold_results opn [] st of
        None \<Rightarrow> None
      | Some (succeeded, results1, folder', ir1) \<Rightarrow>
          if \<not> succeeded then Some (False, folder', ir1)
          else (let ir2 = replaceUsesOfResults opn results1 ir1
                in Some (True, folder', if getNumResults opn \<noteq> 0 then erase opn ir2 else ir2)))"

section \<open>Operation::create\<close>

text \<open>
  A \<open>Value *\<close> of the operand list is the identity of a Value, or null (the sentinel
  before the operands of a successor). A use is an operand slot of an operation: the
  owner and the operand number. \<open>UseLists\<close> gives every Value its use list.
\<close>

type_synonym ValuePtr = "nat option"

record OpOperand =
  useOwner :: nat
  useOperandNumber :: nat

type_synonym UseLists = "nat \<Rightarrow> OpOperand list"

text \<open>
  The operation that \<open>Operation::create\<close> builds: its identity (the address that
  \<open>malloc\<close> returned), the size of its \<open>OperandStorage\<close>, the operands constructed
  in it, its successors and the operand count of each, and the numbers of results and
  regions.
\<close>

record OperationInst =
  instId :: nat
  operandStorageSize :: nat
  opOperands :: "nat list"
  blockOperands :: "nat list"
  succOperandCounts :: "nat list"
  instNumResults :: nat
  instNumRegions :: nat

definition getNumOperands :: "OperationInst \<Rightarrow> nat" where
  "getNumOperands inst = operandStorageSize inst"

text \<open>
  Modelled from the spec: the constructor \<open>OpOperand(op, value)\<close> (IR/UseDefLists.h is
  not under src/) installs the use into the use list of the value, at its head. Here it
  also stores the operand in the next slot; constructing an operand beyond the end of the
  storage aborts.
\<close>

definition newOpOperand ::
  "nat \<Rightarrow> nat \<Rightarrow> OperationInst \<times> UseLists \<Rightarrow> (OperationInst \<times> UseLists) option" where
  "newOpOperand v nextOperand st =
     (case st of (inst, uses) \<Rightarrow>
        if nextOperand \<ge> operandStorageSize inst then None
        else Some (inst \<lparr> opOperands := opOperands inst @ [v] \<rparr>,
                   uses (v := \<lparr> useOwner = instId inst, useOperandNumber = nextOperand \<rparr>
                              # uses v)))"

text \<open>The first loop of \<open>Operation::create\<close> (lines 175 to 182): up to the first null.\<close>

fun initNormalOperands ::
  "ValuePtr list \<Rightarrow> nat \<Rightarrow> OperationInst \<times> UseLists
     \<Rightarrow> (ValuePtr list \<times> nat \<times> OperationInst \<times> UseLists) option" where
  "initNormalOperands [] nextOperand st = Some ([], nextOperand, st)"
| "initNormalOperands (None # rest) nextOperand st = Some (None # rest, nextOperand, st)"
| "initNormalOperands (Some v # rest) nextOperand st =
     (case newOpOperand v nextOperand st of
        None \<Rightarrow> None
      | Some st' \<Rightarrow> initNormalOperands rest (nextOperand + 1) st')"

text \<open>
  The second loop (lines 199 to 221), over the operands from the first null on.
  \<open>succIt\<close> is the position of \<open>succOperandCountIt\<close> in the operand counts.
\<close>

fun initSuccessorOperands ::
  "nat list \<Rightarrow> ValuePtr list \<Rightarrow> nat \<Rightarrow> nat \<Rightarrow> nat \<Rightarrow> OperationInst \<times> UseLists
     \<Rightarrow> (nat \<times> OperationInst \<times> UseLists) option" where
  "initSuccessorOperands successors [] nextOperand currentSuccNum succIt st =
     Some (currentSuccNum, st)"
| "initSuccessorOperands successors (None # rest) nextOperand currentSuccNum succIt (inst, uses) =
     (if \<not> currentSuccNum < length successors then None
      else
        let succIt' = (if currentSuccNum \<noteq> 0 then succIt + 1 else succIt)
        in if currentSuccNum \<noteq> 0 \<and> succIt' = length successors then None
           else initSuccessorOperands successors rest nextOperand (currentSuccNum + 1) succIt'
                  (inst \<lparr> blockOperands := blockOperands inst @ [successors ! currentSuccNum],
                          succOperandCounts := (succOperandCounts inst)[succIt' := 0] \<rparr>,
                   uses))"
| "initSuccessorOperands successors (Some v # rest) nextOperand currentSuccNum succIt st =
     (case newOpOperand v nextOperand st of
        None \<Rightarrow> None
      | Some (inst, uses) \<Rightarrow>
          initSuccessorOperands successors rest (nextOperand + 1) currentSuccNum succIt
            (inst \<lparr> succOperandCounts :=
                      (succOperandCounts inst)[succIt := succOperandCounts inst ! succIt + 1] \<rparr>,
             uses))"

text \<open>
  \<open>Operation::create\<close> (line 128). \<open>newId\<close> is the address of the allocation,
  \<open>isKnownNonTerminator\<close> what the operation name says. \<open>numOperands\<close> is an
  \<open>unsigned\<close>: the subtraction wraps. A failed assertion is \<open>None\<close>.
\<close>

definition Operation_create ::
  "nat \<Rightarrow> bool \<Rightarrow> ValuePtr list \<Rightarrow> nat \<Rightarrow> nat list \<Rightarrow> nat \<Rightarrow> UseLists
     \<Rightarrow> (OperationInst \<times> UseLists) option" where
  "Operation_create newId isKnownNonTerminator operands numResultTypes successors numRegions uses =
     (let numSuccessors = length successors;
          numOperands = nat ((int (length operands) - int numSuccessors) mod 2 ^ 32);
          inst = \<lparr> instId = newId, operandStorageSize = numOperands, opOperands = [],
                   blockOperands = [], succOperandCounts = replicate numSuccessors 0,
                   instNumResults = numResultTypes, instNumRegions = numRegions \<rparr>
      in if \<not> (numSuccessors = 0 \<or> \<not> isKnownNonTerminator) then None
         else
           (case initNormalOperands operands 0 (inst, uses) of
              None \<Rightarrow> None
            | Some (rest, nextOperand, st) \<Rightarrow>
                if rest = [] then (if 0 = numSuccessors then Some st else None)
                else if isKnownNonTerminator then None
                else
                  (case initSuccessorOperands successors rest nextOperand 0 0 st of
                     None \<Rightarrow> None
                   | Some (currentSuccNum, st') \<Rightarrow>
                       if currentSuccNum = numSuccessors then Some st' else None)))"

section \<open>Vocabulary for the statements about canonicalization\<close>

text \<open>The dimension and symbol positions that an expression, and a map, refer to.\<close>

fun dimsOf :: "AffineExpr \<Rightarrow> nat set" where
  "dimsOf (AffineDimExpr i) = {i}"
| "dimsOf (AffineSymbolExpr j) = {}"
| "dimsOf (AffineConstantExpr c) = {}"
| "dimsOf (AffineBinaryOpExpr k a b) = dimsOf a \<union> dimsOf b"

fun symsOf :: "AffineExpr \<Rightarrow> nat set" where
  "symsOf (AffineDimExpr i) = {}"
| "symsOf (AffineSymbolExpr j) = {j}"
| "symsOf (AffineConstantExpr c) = {}"
| "symsOf (AffineBinaryOpExpr k a b) = symsOf a \<union> symsOf b"

definition usedDimsOfMap :: "AffineMap \<Rightarrow> nat set" where
  "usedDimsOfMap m = \<Union> (dimsOf ` set (results m))"

definition usedSymsOfMap :: "AffineMap \<Rightarrow> nat set" where
  "usedSymsOfMap m = \<Union> (symsOf ` set (results m))"

text \<open>
  The invariant of an affine map: every position that a result refers to is below the
  number of dimensions, or of symbols, of the map.
\<close>

definition validMap :: "AffineMap \<Rightarrow> bool" where
  "validMap m = (usedDimsOfMap m \<subseteq> {..<numDims m} \<and> usedSymsOfMap m \<subseteq> {..<numSymbols m})"

text \<open>
  What a replacement vector puts for a position: its entry, or the position itself beyond
  the end of the vector.
\<close>

definition dimReplacement :: "AffineExpr option list \<Rightarrow> nat \<Rightarrow> AffineExpr option" where
  "dimReplacement ds i = (if i \<ge> length ds then Some (AffineDimExpr i) else ds ! i)"

definition symReplacement :: "AffineExpr option list \<Rightarrow> nat \<Rightarrow> AffineExpr option" where
  "symReplacement ss j = (if j \<ge> length ss then Some (AffineSymbolExpr j) else ss ! j)"

text \<open>
  A list extended by the values of a second list that it does not hold yet, in the order
  of their first occurrence; and a bit vector with the bits of a set of positions set.
\<close>

fun extendDistinct :: "'a list \<Rightarrow> 'a list \<Rightarrow> 'a list" where
  "extendDistinct us [] = us"
| "extendDistinct us (v # vs) = extendDistinct (if v \<in> set us then us else us @ [v]) vs"

definition markBits :: "nat set \<Rightarrow> bool list \<Rightarrow> bool list" where
  "markBits S bs = map (\<lambda>i. bs ! i \<or> i \<in> S) [0..<length bs]"

text \<open>
  Where \<open>canonicalizePromotedSymbols\<close> puts the operand at dimension \<open>k\<close>: among the
  dimensions that stay, or among the symbols appended. \<open>seenOf\<close> is the content of
  \<open>seenDims\<close> (or \<open>seenSymbols\<close>) when the operands \<open>us\<close> have been kept.
\<close>

definition keptDimPos :: "Value list \<Rightarrow> nat \<Rightarrow> nat" where
  "keptDimPos ts k = length (filter (\<lambda>v. \<not> isValidSymbol v) (take k ts))"

definition promotedPos :: "Value list \<Rightarrow> nat \<Rightarrow> nat" where
  "promotedPos ts k = length (filter isValidSymbol (take k ts))"

definition seenOf :: "(nat \<Rightarrow> AffineExpr) \<Rightarrow> Value list \<Rightarrow> (Value \<times> AffineExpr) list" where
  "seenOf mk us = zip us (map mk [0..<length us])"

text \<open>
  What holds of the operation under construction and the use lists when \<open>k\<close> operands
  have been constructed in a storage of size \<open>S\<close>: every operand slot has exactly one
  use in the use list of its value, and no use of the operation carries a larger number.
\<close>

definition createInv :: "nat \<Rightarrow> nat \<Rightarrow> nat \<Rightarrow> OperationInst \<times> UseLists \<Rightarrow> bool" where
  "createInv newId S k st =
     (case st of (inst, uses) \<Rightarrow>
        instId inst = newId \<and> operandStorageSize inst = S
        \<and> length (opOperands inst) = k \<and> k \<le> S
        \<and> (\<forall>i<k. count_list (uses (opOperands inst ! i))
                      \<lparr> useOwner = newId, useOperandNumber = i \<rparr> = 1)
        \<and> (\<forall>v. \<forall>u \<in> set (uses v). useOwner u = newId \<longrightarrow> useOperandNumber u < k))"

text \<open>The values of the non-null entries of an operand list, in order.\<close>

definition nonNull :: "ValuePtr list \<Rightarrow> nat list" where
  "nonNull ops = map the (filter (\<lambda>p. p \<noteq> None) ops)"

section \<open>Vocabulary for the statement about folding\<close>

text \<open>
  The folded value of one result of an operation: the value that the hook answered, or
  the result of the constant operation that represents, in the folder, the attribute that
  the hook answered.
\<close>

definition foldedValueOf ::
  "OperationFolder \<Rightarrow> Region \<Rightarrow> nat option \<Rightarrow> OpFoldResult \<times> Type \<Rightarrow> FolderValue option" where
  "foldedValueOf folder region dialect rt =
     (case fst rt of
        FoldedValue repl \<Rightarrow> Some repl
      | FoldedAttribute attr \<Rightarrow>
          map_option (\<lambda>constOp. ResultOf constOp 0)
            (map_of (foldScopes folder) (region, dialect, attr, snd rt)))"

section \<open>Classification of values\<close>

text \<open>
  C9. A value whose type is not \<open>index\<close> is neither a valid dimension nor a valid
  symbol, whatever defines it.
\<close>

theorem non_index_never_valid:
  "\<not> isIndex (getType v) \<Longrightarrow> \<not> isValidDim v \<and> \<not> isValidSymbol v"
proof (cases v)
  case (BlockArgument i t f)
  assume "\<not> isIndex (getType v)"
  with BlockArgument show ?thesis by simp
next
  case (OpResult i t opn)
  assume "\<not> isIndex (getType v)"
  with OpResult show ?thesis by (cases opn) simp
qed

theorem non_index_never_valid_witness:
  "\<not> isIndex (getType (OpResult 0 (MemRefType 0) (Operation ConstantOp True [])))
   \<and> \<not> isValidDim (OpResult 0 (MemRefType 0) (Operation ConstantOp True []))
   \<and> \<not> isValidSymbol (OpResult 0 (MemRefType 0) (Operation ConstantOp True []))"
  using non_index_never_valid [of "OpResult 0 (MemRefType 0) (Operation ConstantOp True [])"]
  by (simp add: isIndex_def)

text \<open>
  C5, as the code has it. A value is a valid symbol exactly when its type is \<open>index\<close>
  and it is defined at the top level of a function, or by a constant, or by an
  \<open>affine.apply\<close> whose operands are all valid symbols, or by a \<open>dim\<close> of a value
  defined at the top level. A value is a valid dimension exactly when its type is
  \<open>index\<close> and it is a block argument (a loop induction variable is one), or the result
  of an operation at the top level of a function, of a constant, of an \<open>affine.apply\<close>
  whose operands are all valid dimensions, or of a \<open>dim\<close> of a value defined at the top
  level.
\<close>

theorem isValidSymbol_isValidDim_characterisation:
  "isValidSymbol v =
     (isIndex (getType v) \<and>
      (isTopLevelSymbol v \<or>
       (\<exists>opn. getDefiningOp v = Some opn \<and>
          (isa_ConstantOp opn
           \<or> (isa_AffineApplyOp opn \<and> list_all isValidSymbol (getOperands opn))
           \<or> (isa_DimOp opn \<and> (\<exists>x. DimOp_getOperand opn = Some x \<and> isTopLevelSymbol x))))))
   \<and>
   isValidDim v =
     (isIndex (getType v) \<and>
      (getDefiningOp v = None \<or>
       (\<exists>opn. getDefiningOp v = Some opn \<and>
          (inFunctionRegion opn
           \<or> isa_ConstantOp opn
           \<or> (isa_AffineApplyOp opn \<and> list_all isValidDim (getOperands opn))
           \<or> (isa_DimOp opn \<and> (\<exists>x. DimOp_getOperand opn = Some x \<and> isTopLevelSymbol x))))))"
proof (cases v)
  case (BlockArgument i t f)
  then show ?thesis by simp
next
  case (OpResult i t opn)
  then show ?thesis
    by (cases opn)
       (auto simp: isa_ConstantOp_def isa_AffineApplyOp_def isa_DimOp_def DimOp_getOperand_def
             split: OpKind.splits list.splits)
qed

theorem isValidSymbol_isValidDim_characterisation_witness:
  "isValidSymbol (OpResult 1 IndexType (Operation DimOp False [BlockArgument 0 (MemRefType 0) True]))
   \<and> isValidDim (OpResult 1 IndexType (Operation DimOp False [BlockArgument 0 (MemRefType 0) True]))"
  using isValidSymbol_isValidDim_characterisation
          [of "OpResult 1 IndexType (Operation DimOp False [BlockArgument 0 (MemRefType 0) True])"]
  by (simp add: isIndex_def isa_DimOp_def DimOp_getOperand_def)

text \<open>
  C5 as the spec states it fails. The size of a top-level memref, computed inside a loop,
  is a valid symbol, though it is neither defined at the top level, nor a constant, nor
  the result of an \<open>affine.apply\<close>. A function argument of memref type is defined at the
  top level and is no valid symbol. The result of an \<open>affine.apply\<close> on a loop induction
  variable is a valid dimension, though its operand is no valid symbol.
\<close>

theorem isValidSymbol_spec_counterexample:
  "isValidSymbol (OpResult 1 IndexType (Operation DimOp False [BlockArgument 0 (MemRefType 0) True]))
   \<and> \<not> isTopLevelSymbol
          (OpResult 1 IndexType (Operation DimOp False [BlockArgument 0 (MemRefType 0) True]))
   \<and> \<not> isa_ConstantOp (Operation DimOp False [BlockArgument 0 (MemRefType 0) True])
   \<and> \<not> isa_AffineApplyOp (Operation DimOp False [BlockArgument 0 (MemRefType 0) True])
   \<and> isTopLevelSymbol (BlockArgument 2 (MemRefType 0) True)
   \<and> \<not> isValidSymbol (BlockArgument 2 (MemRefType 0) True)
   \<and> isValidDim (OpResult 4 IndexType
        (Operation (AffineApplyOp \<lparr> numDims = 1, numSymbols = 0, results = [AffineDimExpr 0] \<rparr>)
           False [BlockArgument 3 IndexType False]))
   \<and> \<not> isValidSymbol (BlockArgument 3 IndexType False)"
  by (simp add: isIndex_def isa_ConstantOp_def isa_AffineApplyOp_def)

section \<open>Verification of affine.dma_start: the memory spaces\<close>

text \<open>
  C10, as the code has it. An \<open>affine.dma_start\<close> that passes verification has memref
  source and destination in different memory spaces. When the source, the destination
  and the tag are memrefs and the memory spaces of source and destination are equal,
  verification fails with the diagnostic "DMA should be between different memory spaces".
\<close>

theorem dma_verify_memory_spaces:
  "(AffineDmaStartOp_verify dma = Some success \<longrightarrow>
      (\<exists>src dst. getOperand dma (getSrcMemRefOperandIndex dma) = Some src
         \<and> getOperand dma (getDstMemRefOperandIndex dma) = Some dst
         \<and> isa_MemRefType (getType src) \<and> isa_MemRefType (getType dst)
         \<and> getMemorySpace (getType src) \<noteq> getMemorySpace (getType dst)))
   \<and>
   (getOperand dma (getSrcMemRefOperandIndex dma) = Some src
      \<and> getOperand dma (getDstMemRefOperandIndex dma) = Some dst
      \<and> getOperand dma (getTagMemRefOperandIndex dma) = Some tag
      \<and> isa_MemRefType (getType src) \<and> isa_MemRefType (getType dst)
      \<and> isa_MemRefType (getType tag)
      \<and> getMemorySpace (getType src) = getMemorySpace (getType dst) \<longrightarrow>
    AffineDmaStartOp_verify dma
      = Some (failure ''DMA should be between different memory spaces''))"
  by (auto simp: AffineDmaStartOp_verify_def Let_def split: option.splits if_splits)

theorem dma_verify_memory_spaces_witness:
  "AffineDmaStartOp_verify
     \<lparr> dmaOperands = [BlockArgument 0 (MemRefType 0) True, BlockArgument 1 (MemRefType 2) True,
           BlockArgument 2 (MemRefType 0) True, BlockArgument 3 IndexType True],
        srcMap = \<lparr> numDims = 0, numSymbols = 0, results = [AffineConstantExpr 0] \<rparr>,
        dstMap = \<lparr> numDims = 0, numSymbols = 0, results = [AffineConstantExpr 0] \<rparr>,
        tagMap = \<lparr> numDims = 0, numSymbols = 0, results = [AffineConstantExpr 0] \<rparr> \<rparr>
     = Some success
   \<and> getMemorySpace (getType (BlockArgument 0 (MemRefType 0) True))
       \<noteq> getMemorySpace (getType (BlockArgument 1 (MemRefType 2) True))
   \<and> AffineDmaStartOp_verify
     \<lparr> dmaOperands = [BlockArgument 0 (MemRefType 1) True, BlockArgument 1 (MemRefType 1) True,
           BlockArgument 2 (MemRefType 0) True, BlockArgument 3 IndexType True],
        srcMap = \<lparr> numDims = 0, numSymbols = 0, results = [AffineConstantExpr 0] \<rparr>,
        dstMap = \<lparr> numDims = 0, numSymbols = 0, results = [AffineConstantExpr 0] \<rparr>,
        tagMap = \<lparr> numDims = 0, numSymbols = 0, results = [AffineConstantExpr 0] \<rparr> \<rparr>
     = Some (failure ''DMA should be between different memory spaces'')"
  using dma_verify_memory_spaces
     [of "\<lparr> dmaOperands = [BlockArgument 0 (MemRefType 1) True, BlockArgument 1 (MemRefType 1) True,
           BlockArgument 2 (MemRefType 0) True, BlockArgument 3 IndexType True],
        srcMap = \<lparr> numDims = 0, numSymbols = 0, results = [AffineConstantExpr 0] \<rparr>,
        dstMap = \<lparr> numDims = 0, numSymbols = 0, results = [AffineConstantExpr 0] \<rparr>,
        tagMap = \<lparr> numDims = 0, numSymbols = 0, results = [AffineConstantExpr 0] \<rparr> \<rparr>"
         "BlockArgument 0 (MemRefType 1) True" "BlockArgument 1 (MemRefType 1) True"
         "BlockArgument 2 (MemRefType 0) True"]
  by (simp add: AffineDmaStartOp_verify_def getOperand_def getSrcMemRefOperandIndex_def
        getDstMemRefOperandIndex_def getTagMemRefOperandIndex_def getNumInputs_def
        isa_MemRefType_def)

text \<open>
  C10 as stated fails: the type of the tag is checked before the memory spaces, so with
  equal memory spaces and a tag that is no memref the diagnostic is another one.
\<close>

theorem dma_verify_tag_checked_first_counterexample:
  "getMemorySpace (getType (BlockArgument 0 (MemRefType 1) True))
     = getMemorySpace (getType (BlockArgument 1 (MemRefType 1) True))
   \<and> AffineDmaStartOp_verify
     \<lparr> dmaOperands = [BlockArgument 0 (MemRefType 1) True, BlockArgument 1 (MemRefType 1) True,
           BlockArgument 2 IndexType True, BlockArgument 3 IndexType True],
        srcMap = \<lparr> numDims = 0, numSymbols = 0, results = [AffineConstantExpr 0] \<rparr>,
        dstMap = \<lparr> numDims = 0, numSymbols = 0, results = [AffineConstantExpr 0] \<rparr>,
        tagMap = \<lparr> numDims = 0, numSymbols = 0, results = [AffineConstantExpr 0] \<rparr> \<rparr>
     = Some (failure ''expected DMA tag to be of memref type'')
   \<and> failure ''expected DMA tag to be of memref type''
       \<noteq> failure ''DMA should be between different memory spaces''"
  by (simp add: AffineDmaStartOp_verify_def getOperand_def getSrcMemRefOperandIndex_def
        getDstMemRefOperandIndex_def getTagMemRefOperandIndex_def getNumInputs_def
        isa_MemRefType_def)

section \<open>Folding a created operation\<close>

lemma tryGetOrCreateConstant_props:
  assumes "tryGetOrCreateConstant region dialect attr type (folder, ir) = (constOp, folder1, ir1)"
  shows "map_of (foldScopes folder1) (region, dialect, attr, type) = Some constOp"
    and "\<And>k c. map_of (foldScopes folder) k = Some c \<Longrightarrow> map_of (foldScopes folder1) k = Some c"
    and "set (linkedOps ir) \<subseteq> set (linkedOps ir1)"
  using assms
  by (auto simp: tryGetOrCreateConstant_def Let_def map_of_append map_add_def split: option.splits)

lemma materialize_props:
  "materialize region dialect rts (res, folder, ir) = (res', folder', ir') \<Longrightarrow>
     (\<exists>new. res' = res @ new
          \<and> map Some new = map (foldedValueOf folder' region dialect) rts)
     \<and> (\<forall>k c. map_of (foldScopes folder) k = Some c \<longrightarrow> map_of (foldScopes folder') k = Some c)
     \<and> set (linkedOps ir) \<subseteq> set (linkedOps ir')"
proof (induction region dialect rts "(res, folder, ir)" arbitrary: res folder ir
       rule: materialize.induct)
  case (1 region dialect)
  then show ?case by simp
next
  case (2 region dialect repl type rest res folder ir)
  from 2(2) have m: "materialize region dialect rest (res @ [repl], folder, ir)
      = (res', folder', ir')" by simp
  from 2(1) [OF m] obtain new where
    n: "res' = (res @ [repl]) @ new"
       "map Some new = map (foldedValueOf folder' region dialect) rest"
    and mono: "\<forall>k c. map_of (foldScopes folder) k = Some c \<longrightarrow> map_of (foldScopes folder') k = Some c"
    and l: "set (linkedOps ir) \<subseteq> set (linkedOps ir')"
    by (elim exE conjE) (rule that)
  have "res' = res @ (repl # new)
      \<and> map Some (repl # new)
          = map (foldedValueOf folder' region dialect) ((FoldedValue repl, type) # rest)"
    using n by (simp add: foldedValueOf_def)
  then have "\<exists>new. res' = res @ new
      \<and> map Some new = map (foldedValueOf folder' region dialect) ((FoldedValue repl, type) # rest)"
    by (rule exI)
  with mono l show ?case by (intro conjI)
next
  case (3 region dialect attr type rest res folder ir)
  obtain constOp folder1 ir1 where
    t: "tryGetOrCreateConstant region dialect attr type (folder, ir) = (constOp, folder1, ir1)"
    by (metis prod_cases3)
  let ?folder2 = "folder1 \<lparr> referencedDialects :=
                         List.insert (constOp, dialect) (referencedDialects folder1) \<rparr>"
  from 3(2) t have m: "materialize region dialect rest (res @ [ResultOf constOp 0], ?folder2, ir1)
      = (res', folder', ir')" by simp
  from 3(1) [OF t [symmetric] refl m] obtain new where
    n: "res' = (res @ [ResultOf constOp 0]) @ new"
       "map Some new = map (foldedValueOf folder' region dialect) rest"
    and mono: "\<forall>k c. map_of (foldScopes ?folder2) k = Some c \<longrightarrow> map_of (foldScopes folder') k = Some c"
    and l: "set (linkedOps ir1) \<subseteq> set (linkedOps ir')"
    by (elim exE conjE) (rule that)
  note p = tryGetOrCreateConstant_props [OF t]
  from p(1) mono have k: "map_of (foldScopes folder') (region, dialect, attr, type) = Some constOp"
    by simp
  have "res' = res @ (ResultOf constOp 0 # new)
      \<and> map Some (ResultOf constOp 0 # new)
          = map (foldedValueOf folder' region dialect) ((FoldedAttribute attr, type) # rest)"
    using n k by (simp add: foldedValueOf_def)
  then have e: "\<exists>new. res' = res @ new
      \<and> map Some new = map (foldedValueOf folder' region dialect) ((FoldedAttribute attr, type) # rest)"
    by (rule exI)
  have mono': "\<forall>k c. map_of (foldScopes folder) k = Some c \<longrightarrow> map_of (foldScopes folder') k = Some c"
    using p(2) mono by simp
  have l': "set (linkedOps ir) \<subseteq> set (linkedOps ir')" using p(3) l by (rule subset_trans)
  from e mono' l' show ?case by (intro conjI)
qed

lemma tryToFold_results_success:
  assumes "OperationFolder_tryToFold_results opn [] (folder, ir1) = Some (True, folded, folder', ir')"
  shows "\<exists>foldResults.
           Operation_fold opn (map (matchConstant ir1) (folderOpOperands opn)) = Some foldResults
           \<and> length foldResults = getNumResults opn
           \<and> map Some folded
               = map (foldedValueOf folder' (getParentRegion opn) (map_option dialectId (getDialect opn)))
                     (zip foldResults (getResultTypes opn))"
    and "set (linkedOps ir1) \<subseteq> set (linkedOps ir')"
proof -
  from assms obtain foldResults where
    f: "Operation_fold opn (map (matchConstant ir1) (folderOpOperands opn)) = Some foldResults"
    and len: "length foldResults = getNumResults opn"
    and m: "materialize (getParentRegion opn) (map_option dialectId (getDialect opn))
              (zip foldResults (getResultTypes opn)) ([], folder, ir1) = (folded, folder', ir')"
    by (auto simp: OperationFolder_tryToFold_results_def split: option.splits if_splits prod.splits)
  from materialize_props [OF m] obtain new where
    n: "folded = [] @ new"
       "map Some new
          = map (foldedValueOf folder' (getParentRegion opn) (map_option dialectId (getDialect opn)))
                (zip foldResults (getResultTypes opn))"
    and l: "set (linkedOps ir1) \<subseteq> set (linkedOps ir')"
    by (elim exE conjE) (rule that)
  from n have "map Some folded
      = map (foldedValueOf folder' (getParentRegion opn) (map_option dialectId (getDialect opn)))
            (zip foldResults (getResultTypes opn))" by simp
  with f len show "\<exists>foldResults.
           Operation_fold opn (map (matchConstant ir1) (folderOpOperands opn)) = Some foldResults
           \<and> length foldResults = getNumResults opn
           \<and> map Some folded
               = map (foldedValueOf folder' (getParentRegion opn) (map_option dialectId (getDialect opn)))
                     (zip foldResults (getResultTypes opn))" by blast
  from l show "set (linkedOps ir1) \<subseteq> set (linkedOps ir')" .
qed

lemma map_of_replaced_kept:
  "u \<noteq> p \<Longrightarrow>
   map_of (filter (\<lambda>e. fst e \<noteq> p) (map (\<lambda>e. (fst e, f (snd e))) xs)) u
     = map_option f (map_of xs u)"
  by (induction xs) auto

lemma map_of_replaced:
  "map_of (map (\<lambda>e. (fst e, f (snd e))) xs) u = map_option f (map_of xs u)"
  by (induction xs) auto

text \<open>
  C8. When the folding of an operation succeeds, there is one folded value for each result
  of the operation: the value that \<open>Operation::fold\<close> answered for the result, or the
  result of the constant operation that represents the attribute it answered. When the
  operation was made by \<open>create\<close>, these values are the results that \<open>create\<close> hands
  back, and the operation is erased exactly when it has at least one result; the overload
  for one result returns the folded value of the result; the overload for no result
  returns the operation, still linked. When a linked operation is folded by the public
  \<open>tryToFold\<close>, every operand of another operation that was result \<open>i\<close> of the
  operation is the folded value \<open>i\<close> afterwards, every other operand is unchanged, and
  the operation is erased exactly when it has at least one result.
\<close>

theorem folder_replaces_results_and_erases:
  assumes "OperationFolder_tryToFold_results opn [] (folder, ir1) = Some (True, folded, folder', ir')"
  shows "length folded = getNumResults opn
     \<and> (\<exists>foldResults.
           Operation_fold opn (map (matchConstant ir1) (folderOpOperands opn)) = Some foldResults
           \<and> map Some folded
               = map (foldedValueOf folder' (getParentRegion opn) (map_option dialectId (getDialect opn)))
                     (zip foldResults (getResultTypes opn)))
     \<and> (ir1 = builder_create opn ir \<longrightarrow>
           (\<exists>irc. OperationFolder_create opn [] (folder, ir) = Some (folded, folder', irc)
                \<and> (folderOpId opn \<notin> set (linkedOps irc)) = (getNumResults opn \<ge> 1))
           \<and> (getNumResults opn = 1 \<longrightarrow>
                 (\<exists>irc. OperationFolder_create_OneResult opn (folder, ir)
                          = Some (folded ! 0, folder', irc)
                      \<and> folderOpId opn \<notin> set (linkedOps irc)))
           \<and> (getNumResults opn = 0 \<longrightarrow>
                 OperationFolder_create_ZeroResult opn (folder, ir) = Some (opn, folder', ir')
                 \<and> folderOpId opn \<in> set (linkedOps ir')))
     \<and> (folderOpId opn \<in> set (linkedOps ir1) \<longrightarrow>
           (\<exists>ir2. OperationFolder_tryToFold opn (folder, ir1) = Some (True, folder', ir2)
                \<and> (folderOpId opn \<notin> set (linkedOps ir2)) = (getNumResults opn \<ge> 1)
                \<and> (\<forall>u. u \<noteq> folderOpId opn \<longrightarrow>
                       map_of (operandLists ir2) u
                         = map_option (map (replacementOf (folderOpId opn) folded))
                                      (map_of (operandLists ir') u))))"
proof -
  from tryToFold_results_success [OF assms] obtain foldResults where
    f: "Operation_fold opn (map (matchConstant ir1) (folderOpOperands opn)) = Some foldResults"
    and len: "length foldResults = getNumResults opn"
    and v: "map Some folded
               = map (foldedValueOf folder' (getParentRegion opn) (map_option dialectId (getDialect opn)))
                     (zip foldResults (getResultTypes opn))"
    and l: "set (linkedOps ir1) \<subseteq> set (linkedOps ir')"
    by (elim exE conjE) (rule that)
  from v have "length (map Some folded) = length (zip foldResults (getResultTypes opn))"
    by (simp only: length_map)
  with len have lf: "length folded = getNumResults opn" by (simp add: getNumResults_def)
  have a: "\<exists>foldResults.
           Operation_fold opn (map (matchConstant ir1) (folderOpOperands opn)) = Some foldResults
           \<and> map Some folded
               = map (foldedValueOf folder' (getParentRegion opn) (map_option dialectId (getDialect opn)))
                     (zip foldResults (getResultTypes opn))"
    using f v by blast
  have b: "ir1 = builder_create opn ir \<longrightarrow>
           (\<exists>irc. OperationFolder_create opn [] (folder, ir) = Some (folded, folder', irc)
                \<and> (folderOpId opn \<notin> set (linkedOps irc)) = (getNumResults opn \<ge> 1))
           \<and> (getNumResults opn = 1 \<longrightarrow>
                 (\<exists>irc. OperationFolder_create_OneResult opn (folder, ir)
                          = Some (folded ! 0, folder', irc)
                      \<and> folderOpId opn \<notin> set (linkedOps irc)))
           \<and> (getNumResults opn = 0 \<longrightarrow>
                 OperationFolder_create_ZeroResult opn (folder, ir) = Some (opn, folder', ir')
                 \<and> folderOpId opn \<in> set (linkedOps ir'))"
  proof
    assume i: "ir1 = builder_create opn ir"
    then have "folderOpId opn \<in> set (linkedOps ir1)" by (simp add: builder_create_def)
    with l have lk: "folderOpId opn \<in> set (linkedOps ir')" by blast
    let ?irc = "if getNumResults opn \<noteq> 0 then erase opn ir' else ir'"
    have c: "OperationFolder_create opn [] (folder, ir) = Some (folded, folder', ?irc)"
      using assms i by (simp add: OperationFolder_create_def)
    have e: "(folderOpId opn \<notin> set (linkedOps ?irc)) = (getNumResults opn \<ge> 1)"
      using lk by (simp add: erase_def Suc_le_eq)
    have one: "getNumResults opn = 1 \<longrightarrow>
                 (\<exists>irc. OperationFolder_create_OneResult opn (folder, ir)
                          = Some (folded ! 0, folder', irc)
                      \<and> folderOpId opn \<notin> set (linkedOps irc))"
    proof
      assume o: "getNumResults opn = 1"
      with lf obtain r where r: "folded = [r]" by (cases folded) simp_all
      have "OperationFolder_create_OneResult opn (folder, ir) = Some (folded ! 0, folder', erase opn ir')
          \<and> folderOpId opn \<notin> set (linkedOps (erase opn ir'))"
        using c o r by (simp add: OperationFolder_create_OneResult_def erase_def)
      then show "\<exists>irc. OperationFolder_create_OneResult opn (folder, ir)
                          = Some (folded ! 0, folder', irc)
                      \<and> folderOpId opn \<notin> set (linkedOps irc)" by (rule exI)
    qed
    have zero: "getNumResults opn = 0 \<longrightarrow>
                 OperationFolder_create_ZeroResult opn (folder, ir) = Some (opn, folder', ir')
                 \<and> folderOpId opn \<in> set (linkedOps ir')"
      using assms i lk by (simp add: OperationFolder_create_ZeroResult_def)
    from c e have "\<exists>irc. OperationFolder_create opn [] (folder, ir) = Some (folded, folder', irc)
                \<and> (folderOpId opn \<notin> set (linkedOps irc)) = (getNumResults opn \<ge> 1)"
      by (intro exI conjI)
    with one zero show "(\<exists>irc. OperationFolder_create opn [] (folder, ir) = Some (folded, folder', irc)
                \<and> (folderOpId opn \<notin> set (linkedOps irc)) = (getNumResults opn \<ge> 1))
           \<and> (getNumResults opn = 1 \<longrightarrow>
                 (\<exists>irc. OperationFolder_create_OneResult opn (folder, ir)
                          = Some (folded ! 0, folder', irc)
                      \<and> folderOpId opn \<notin> set (linkedOps irc)))
           \<and> (getNumResults opn = 0 \<longrightarrow>
                 OperationFolder_create_ZeroResult opn (folder, ir) = Some (opn, folder', ir')
                 \<and> folderOpId opn \<in> set (linkedOps ir'))"
      by (intro conjI)
  qed
  have c: "folderOpId opn \<in> set (linkedOps ir1) \<longrightarrow>
           (\<exists>ir2. OperationFolder_tryToFold opn (folder, ir1) = Some (True, folder', ir2)
                \<and> (folderOpId opn \<notin> set (linkedOps ir2)) = (getNumResults opn \<ge> 1)
                \<and> (\<forall>u. u \<noteq> folderOpId opn \<longrightarrow>
                       map_of (operandLists ir2) u
                         = map_option (map (replacementOf (folderOpId opn) folded))
                                      (map_of (operandLists ir') u)))"
  proof
    assume "folderOpId opn \<in> set (linkedOps ir1)"
    with l have lk: "folderOpId opn \<in> set (linkedOps ir')" by blast
    let ?ir2 = "if getNumResults opn \<noteq> 0
                then erase opn (replaceUsesOfResults opn folded ir')
                else replaceUsesOfResults opn folded ir'"
    have t: "OperationFolder_tryToFold opn (folder, ir1) = Some (True, folder', ?ir2)"
      using assms by (simp add: OperationFolder_tryToFold_def Let_def)
    have e: "(folderOpId opn \<notin> set (linkedOps ?ir2)) = (getNumResults opn \<ge> 1)"
      using lk by (simp add: erase_def replaceUsesOfResults_def Suc_le_eq)
    have u: "\<forall>u. u \<noteq> folderOpId opn \<longrightarrow>
                       map_of (operandLists ?ir2) u
                         = map_option (map (replacementOf (folderOpId opn) folded))
                                      (map_of (operandLists ir') u)"
      by (simp add: erase_def replaceUsesOfResults_def map_of_replaced map_of_replaced_kept)
    from t e u show "\<exists>ir2. OperationFolder_tryToFold opn (folder, ir1) = Some (True, folder', ir2)
                \<and> (folderOpId opn \<notin> set (linkedOps ir2)) = (getNumResults opn \<ge> 1)
                \<and> (\<forall>u. u \<noteq> folderOpId opn \<longrightarrow>
                       map_of (operandLists ir2) u
                         = map_option (map (replacementOf (folderOpId opn) folded))
                                      (map_of (operandLists ir') u))"
      by (intro exI conjI)
  qed
  from lf a b c show ?thesis by (intro conjI)
qed

theorem folder_replaces_results_and_erases_witness:
  "OperationFolder_tryToFold_results
       \<lparr> folderOpId = 5, getResultTypes = [IndexType, IndexType],
          folderOpOperands = [ResultOf 1 0, OtherValue 9],
          getAbstractOperation =
            Some \<lparr> foldHook = (\<lambda>attrs. Some [FoldedValue (OtherValue 9), FoldedAttribute 42]) \<rparr>,
          getDialect = Some \<lparr> dialectId = 7, constantFoldHook = (\<lambda>attrs. None) \<rparr>,
          getParentRegion = 0 \<rparr>
       []
       (\<lparr> foldScopes = [], referencedDialects = [] \<rparr>,
        builder_create
          \<lparr> folderOpId = 5, getResultTypes = [IndexType, IndexType],
          folderOpOperands = [ResultOf 1 0, OtherValue 9],
          getAbstractOperation =
            Some \<lparr> foldHook = (\<lambda>attrs. Some [FoldedValue (OtherValue 9), FoldedAttribute 42]) \<rparr>,
          getDialect = Some \<lparr> dialectId = 7, constantFoldHook = (\<lambda>attrs. None) \<rparr>,
          getParentRegion = 0 \<rparr>
          \<lparr> linkedOps = [1, 2], operandLists = [(1, []), (2, [ResultOf 1 0])],
          constantAttrs = [(1, 3)] \<rparr>)
     = Some (True, [OtherValue 9, ResultOf 6 0],
             \<lparr> foldScopes = [((0, Some 7, 42, IndexType), 6)], referencedDialects = [(6, Some 7)] \<rparr>,
             \<lparr> linkedOps = [6, 1, 2, 5],
          operandLists = [(1, []), (2, [ResultOf 1 0]), (5, [ResultOf 1 0, OtherValue 9]), (6, [])],
          constantAttrs = [(1, 3), (6, 42)] \<rparr>)
   \<and> (\<exists>irc. OperationFolder_create
              \<lparr> folderOpId = 5, getResultTypes = [IndexType, IndexType],
          folderOpOperands = [ResultOf 1 0, OtherValue 9],
          getAbstractOperation =
            Some \<lparr> foldHook = (\<lambda>attrs. Some [FoldedValue (OtherValue 9), FoldedAttribute 42]) \<rparr>,
          getDialect = Some \<lparr> dialectId = 7, constantFoldHook = (\<lambda>attrs. None) \<rparr>,
          getParentRegion = 0 \<rparr>
              []
              (\<lparr> foldScopes = [], referencedDialects = [] \<rparr>,
               \<lparr> linkedOps = [1, 2], operandLists = [(1, []), (2, [ResultOf 1 0])],
          constantAttrs = [(1, 3)] \<rparr>)
            = Some ([OtherValue 9, ResultOf 6 0],
                    \<lparr> foldScopes = [((0, Some 7, 42, IndexType), 6)], referencedDialects = [(6, Some 7)] \<rparr>,
                    irc)
          \<and> 5 \<notin> set (linkedOps irc))
   \<and> OperationFolder_tryToFold_results
       \<lparr> folderOpId = 5, getResultTypes = [IndexType, IndexType],
          folderOpOperands = [ResultOf 1 0, OtherValue 9],
          getAbstractOperation =
            Some \<lparr> foldHook = (\<lambda>attrs. Some [FoldedValue (OtherValue 9), FoldedAttribute 42]) \<rparr>,
          getDialect = Some \<lparr> dialectId = 7, constantFoldHook = (\<lambda>attrs. None) \<rparr>,
          getParentRegion = 0 \<rparr>
       []
       (\<lparr> foldScopes = [], referencedDialects = [] \<rparr>,
        \<lparr> linkedOps = [1, 5, 8],
          operandLists = [(1, []), (5, [ResultOf 1 0, OtherValue 9]),
                          (8, [ResultOf 5 1, ResultOf 1 0, ResultOf 5 0])],
          constantAttrs = [(1, 3)] \<rparr>)
     = Some (True, [OtherValue 9, ResultOf 9 0],
             \<lparr> foldScopes = [((0, Some 7, 42, IndexType), 9)], referencedDialects = [(9, Some 7)] \<rparr>,
             \<lparr> linkedOps = [9, 1, 5, 8],
          operandLists = [(1, []), (5, [ResultOf 1 0, OtherValue 9]),
                          (8, [ResultOf 5 1, ResultOf 1 0, ResultOf 5 0]), (9, [])],
          constantAttrs = [(1, 3), (9, 42)] \<rparr>)
   \<and> (\<exists>ir2. OperationFolder_tryToFold
              \<lparr> folderOpId = 5, getResultTypes = [IndexType, IndexType],
          folderOpOperands = [ResultOf 1 0, OtherValue 9],
          getAbstractOperation =
            Some \<lparr> foldHook = (\<lambda>attrs. Some [FoldedValue (OtherValue 9), FoldedAttribute 42]) \<rparr>,
          getDialect = Some \<lparr> dialectId = 7, constantFoldHook = (\<lambda>attrs. None) \<rparr>,
          getParentRegion = 0 \<rparr>
              (\<lparr> foldScopes = [], referencedDialects = [] \<rparr>,
               \<lparr> linkedOps = [1, 5, 8],
          operandLists = [(1, []), (5, [ResultOf 1 0, OtherValue 9]),
                          (8, [ResultOf 5 1, ResultOf 1 0, ResultOf 5 0])],
          constantAttrs = [(1, 3)] \<rparr>)
            = Some (True,
                    \<lparr> foldScopes = [((0, Some 7, 42, IndexType), 9)], referencedDialects = [(9, Some 7)] \<rparr>,
                    ir2)
          \<and> 5 \<notin> set (linkedOps ir2)
          \<and> map_of (operandLists ir2) 8 = Some [ResultOf 9 0, ResultOf 1 0, OtherValue 9])
   \<and> OperationFolder_tryToFold_results
       \<lparr> folderOpId = 3, getResultTypes = [], folderOpOperands = [],
          getAbstractOperation = Some \<lparr> foldHook = (\<lambda>attrs. Some []) \<rparr>,
          getDialect = None, getParentRegion = 0 \<rparr>
       []
       (\<lparr> foldScopes = [], referencedDialects = [] \<rparr>,
        builder_create
          \<lparr> folderOpId = 3, getResultTypes = [], folderOpOperands = [],
          getAbstractOperation = Some \<lparr> foldHook = (\<lambda>attrs. Some []) \<rparr>,
          getDialect = None, getParentRegion = 0 \<rparr>
          \<lparr> linkedOps = [], operandLists = [], constantAttrs = [] \<rparr>)
     = Some (True, [],
             \<lparr> foldScopes = [], referencedDialects = [] \<rparr>,
             \<lparr> linkedOps = [3], operandLists = [(3, [])], constantAttrs = [] \<rparr>)
   \<and> OperationFolder_create_ZeroResult
       \<lparr> folderOpId = 3, getResultTypes = [], folderOpOperands = [],
          getAbstractOperation = Some \<lparr> foldHook = (\<lambda>attrs. Some []) \<rparr>,
          getDialect = None, getParentRegion = 0 \<rparr>
       (\<lparr> foldScopes = [], referencedDialects = [] \<rparr>,
        \<lparr> linkedOps = [], operandLists = [], constantAttrs = [] \<rparr>)
     = Some (\<lparr> folderOpId = 3, getResultTypes = [], folderOpOperands = [],
          getAbstractOperation = Some \<lparr> foldHook = (\<lambda>attrs. Some []) \<rparr>,
          getDialect = None, getParentRegion = 0 \<rparr>,
             \<lparr> foldScopes = [], referencedDialects = [] \<rparr>,
             \<lparr> linkedOps = [3], operandLists = [(3, [])], constantAttrs = [] \<rparr>)"
proof -
  let ?A = "\<lparr> folderOpId = 5, getResultTypes = [IndexType, IndexType],
          folderOpOperands = [ResultOf 1 0, OtherValue 9],
          getAbstractOperation =
            Some \<lparr> foldHook = (\<lambda>attrs. Some [FoldedValue (OtherValue 9), FoldedAttribute 42]) \<rparr>,
          getDialect = Some \<lparr> dialectId = 7, constantFoldHook = (\<lambda>attrs. None) \<rparr>,
          getParentRegion = 0 \<rparr>"
  let ?Z = "\<lparr> folderOpId = 3, getResultTypes = [], folderOpOperands = [],
          getAbstractOperation = Some \<lparr> foldHook = (\<lambda>attrs. Some []) \<rparr>,
          getDialect = None, getParentRegion = 0 \<rparr>"
  let ?F = "\<lparr> foldScopes = [], referencedDialects = [] \<rparr>"
  let ?irA = "\<lparr> linkedOps = [1, 2], operandLists = [(1, []), (2, [ResultOf 1 0])],
          constantAttrs = [(1, 3)] \<rparr>"
  let ?irB = "\<lparr> linkedOps = [1, 5, 8],
          operandLists = [(1, []), (5, [ResultOf 1 0, OtherValue 9]),
                          (8, [ResultOf 5 1, ResultOf 1 0, ResultOf 5 0])],
          constantAttrs = [(1, 3)] \<rparr>"
  let ?irZ = "\<lparr> linkedOps = [], operandLists = [], constantAttrs = [] \<rparr>"
  let ?FA = "\<lparr> foldScopes = [((0, Some 7, 42, IndexType), 6)], referencedDialects = [(6, Some 7)] \<rparr>"
  let ?IRA = "\<lparr> linkedOps = [6, 1, 2, 5],
          operandLists = [(1, []), (2, [ResultOf 1 0]), (5, [ResultOf 1 0, OtherValue 9]), (6, [])],
          constantAttrs = [(1, 3), (6, 42)] \<rparr>"
  let ?FB = "\<lparr> foldScopes = [((0, Some 7, 42, IndexType), 9)], referencedDialects = [(9, Some 7)] \<rparr>"
  let ?IRB = "\<lparr> linkedOps = [9, 1, 5, 8],
          operandLists = [(1, []), (5, [ResultOf 1 0, OtherValue 9]),
                          (8, [ResultOf 5 1, ResultOf 1 0, ResultOf 5 0]), (9, [])],
          constantAttrs = [(1, 3), (9, 42)] \<rparr>"
  let ?IRZ = "\<lparr> linkedOps = [3], operandLists = [(3, [])], constantAttrs = [] \<rparr>"
  have hA: "OperationFolder_tryToFold_results ?A [] (?F, builder_create ?A ?irA)
      = Some (True, [OtherValue 9, ResultOf 6 0], ?FA, ?IRA)"
    by (simp add: OperationFolder_tryToFold_results_def Operation_fold_def builder_create_def
        getNumResults_def tryGetOrCreateConstant_def newOpId_def)
  have hB: "OperationFolder_tryToFold_results ?A [] (?F, ?irB)
      = Some (True, [OtherValue 9, ResultOf 9 0], ?FB, ?IRB)"
    by (simp add: OperationFolder_tryToFold_results_def Operation_fold_def
        getNumResults_def tryGetOrCreateConstant_def newOpId_def)
  have hZ: "OperationFolder_tryToFold_results ?Z [] (?F, builder_create ?Z ?irZ)
      = Some (True, [], ?F, ?IRZ)"
    by (simp add: OperationFolder_tryToFold_results_def Operation_fold_def builder_create_def
        getNumResults_def)
  from folder_replaces_results_and_erases [OF hA, of ?irA]
  have cA: "\<exists>irc. OperationFolder_create ?A [] (?F, ?irA)
            = Some ([OtherValue 9, ResultOf 6 0], ?FA, irc)
          \<and> 5 \<notin> set (linkedOps irc)"
    by (simp add: getNumResults_def)
  from folder_replaces_results_and_erases [OF hB]
  obtain ir2 where
    t: "OperationFolder_tryToFold ?A (?F, ?irB) = Some (True, ?FB, ir2)"
    and e: "5 \<notin> set (linkedOps ir2)"
    and u: "\<forall>u. u \<noteq> 5 \<longrightarrow> map_of (operandLists ir2) u
              = map_option (map (replacementOf 5 [OtherValue 9, ResultOf 9 0]))
                  (map_of (operandLists ?IRB) u)"
    by (auto simp: getNumResults_def)
  from u have "map_of (operandLists ir2) 8 = Some [ResultOf 9 0, ResultOf 1 0, OtherValue 9]"
    by (simp add: replacementOf_def)
  with t e have cB: "\<exists>ir2. OperationFolder_tryToFold ?A (?F, ?irB) = Some (True, ?FB, ir2)
          \<and> 5 \<notin> set (linkedOps ir2)
          \<and> map_of (operandLists ir2) 8 = Some [ResultOf 9 0, ResultOf 1 0, OtherValue 9]"
    by (intro exI conjI)
  from folder_replaces_results_and_erases [OF hZ, of ?irZ]
  have cZ: "OperationFolder_create_ZeroResult ?Z (?F, ?irZ) = Some (?Z, ?F, ?IRZ)"
    by (simp add: getNumResults_def)
  from hA cA hB cB hZ cZ show ?thesis by (intro conjI)
qed

section \<open>Composition on concrete inputs\<close>





text \<open>
  C1 fails on the code. \<open>%M\<close> and \<open>%N\<close> are function arguments of type index,
  \<open>%c = affine.apply ()[s0] -> (s0 + 1) ()[%M]\<close> and
  \<open>%b = affine.apply ()[s0, s1] -> (s0) ()[%N, %c]\<close>. The map \<open>(d0) -> (d0)\<close> on
  \<open>(%b)\<close> has the value of \<open>%N\<close>: \<open>7\<close> for \<open>%M = 5\<close> and \<open>%N = 7\<close>. The
  full composition returns \<open>()[s0] -> (s0 + 1)\<close> on \<open>(%M)\<close>, whose value is \<open>6\<close>.
  The nested normalizer of \<open>%b\<close> runs past the depth cap; it takes the first
  \<open>map.getNumDims()\<close> operands for dimensions, counted on the map after the promotion
  of \<open>s1\<close> (line 465), and so binds the new dimension to \<open>%N\<close> and the symbol left to
  \<open>%c\<close>.
\<close>

theorem full_composition_changes_value:
  "evalMapOnOperands (\<lambda>v. if v = BlockArgument 10 IndexType True then 5 else 7)
     \<lparr> numDims = 1, numSymbols = 0, results = [AffineDimExpr 0] \<rparr>
     [OpResult 13 IndexType
        (Operation (AffineApplyOp \<lparr> numDims = 0, numSymbols = 2, results = [AffineSymbolExpr 0] \<rparr>)
           False
           [BlockArgument 11 IndexType True,
            OpResult 12 IndexType
              (Operation
                 (AffineApplyOp \<lparr> numDims = 0, numSymbols = 1,
                    results = [AffineBinaryOpExpr Add (AffineSymbolExpr 0) (AffineConstantExpr 1)] \<rparr>)
                 False [BlockArgument 10 IndexType True])])]
   = Some [7]
  \<and> fullyComposeAffineMapAndOperands
     \<lparr> numDims = 1, numSymbols = 0, results = [AffineDimExpr 0] \<rparr>
     [OpResult 13 IndexType
        (Operation (AffineApplyOp \<lparr> numDims = 0, numSymbols = 2, results = [AffineSymbolExpr 0] \<rparr>)
           False
           [BlockArgument 11 IndexType True,
            OpResult 12 IndexType
              (Operation
                 (AffineApplyOp \<lparr> numDims = 0, numSymbols = 1,
                    results = [AffineBinaryOpExpr Add (AffineSymbolExpr 0) (AffineConstantExpr 1)] \<rparr>)
                 False [BlockArgument 10 IndexType True])])]
   = Some (Some (\<lparr> numDims = 0, numSymbols = 1,
                    results = [AffineBinaryOpExpr Add (AffineSymbolExpr 0) (AffineConstantExpr 1)] \<rparr>,
                 [BlockArgument 10 IndexType True]))
  \<and> evalMapOnOperands (\<lambda>v. if v = BlockArgument 10 IndexType True then 5 else 7)
       \<lparr> numDims = 0, numSymbols = 1,
          results = [AffineBinaryOpExpr Add (AffineSymbolExpr 0) (AffineConstantExpr 1)] \<rparr>
       [BlockArgument 10 IndexType True]
   = Some [6]"
  by code_simp

section \<open>Termination of the full composition\<close>

lemma applyDepth_le_max: "v \<in> set vs \<Longrightarrow> applyDepth v \<le> maxApplyDepth vs"
  unfolding maxApplyDepth_def by (induction vs) auto

lemma maxApplyDepth_less: "0 < n \<Longrightarrow> (\<And>v. v \<in> set vs \<Longrightarrow> applyDepth v < n) \<Longrightarrow> maxApplyDepth vs < n"
  unfolding maxApplyDepth_def by (induction vs) auto

lemma applyDepth_operand:
  "dyn_cast_AffineApplyOp t = Some (m, aops) \<Longrightarrow> v \<in> set aops \<Longrightarrow> applyDepth v < applyDepth t"
proof (cases t)
  case (BlockArgument i ty f)
  assume "dyn_cast_AffineApplyOp t = Some (m, aops)"
  with BlockArgument show ?thesis by simp
next
  case (OpResult i ty opn)
  assume a: "dyn_cast_AffineApplyOp t = Some (m, aops)" and v: "v \<in> set aops"
  obtain k f ops where opn: "opn = Operation k f ops" by (cases opn)
  from a OpResult opn have k: "k = AffineApplyOp m" and o: "ops = aops"
    by (auto split: OpKind.splits)
  have "applyDepth v \<le> maxApplyDepth aops" using v by (rule applyDepth_le_max)
  then show ?thesis using OpResult opn k o by (simp add: maxApplyDepth_def)
qed

lemma applyDepth_pos: "isa_and_nonnull_AffineApplyOp t \<Longrightarrow> 0 < applyDepth t"
  by (cases t; simp add: isa_and_nonnull_AffineApplyOp_def)
     (rename_tac i ty opn, case_tac opn, auto split: OpKind.splits)

lemma applyDepth_zero: "\<not> isa_and_nonnull_AffineApplyOp t \<Longrightarrow> applyDepth t = 0"
  by (cases t; simp add: isa_and_nonnull_AffineApplyOp_def)
     (rename_tac i ty opn, case_tac opn, auto split: OpKind.splits)

lemma renumberOneDim_operands:
  "set (getOperandsOfNormalizer (snd (renumberOneDim v n)))
     \<subseteq> insert v (set (getOperandsOfNormalizer n))"
  by (auto simp: renumberOneDim_def getOperandsOfNormalizer_def split: option.splits)

lemma dispatchOperands_operands:
  "dispatchOperands nd i ts (aux, n) = Some (aux', n') \<Longrightarrow>
     set (getOperandsOfNormalizer n') \<subseteq> set (getOperandsOfNormalizer n) \<union> set ts"
proof (induction ts arbitrary: i aux n)
  case Nil
  then show ?case by simp
next
  case (Cons t ts)
  show ?case
  proof (cases "i < nd")
    case True
    obtain e n1 where r: "renumberOneDim t n = (e, n1)" by (cases "renumberOneDim t n")
    from Cons.prems True r have "dispatchOperands nd (i + 1) ts (aux @ [e], n1) = Some (aux', n')"
      by (simp split: if_splits)
    from Cons.IH [OF this] renumberOneDim_operands [of t n] r show ?thesis by auto
  next
    case False
    with Cons.prems
    have "dispatchOperands nd (i + 1) ts
            (aux, n \<lparr> concatenatedSymbols := concatenatedSymbols n @ [t] \<rparr>) = Some (aux', n')"
      by (simp split: if_splits)
    from Cons.IH [OF this] show ?thesis by (auto simp: getOperandsOfNormalizer_def)
  qed
qed

lemma renumberDims_operands:
  "renumberDims other vs (dr, n) = Some (dr', n') \<Longrightarrow>
     set (getOperandsOfNormalizer n') \<subseteq> set (getOperandsOfNormalizer n) \<union> set vs"
proof (induction vs arbitrary: dr n)
  case Nil
  then show ?case by simp
next
  case (Cons v vs)
  obtain e n1 where r: "renumberOneDim v n = (e, n1)" by (cases "renumberOneDim v n")
  from Cons.prems r obtain dr1 where "renumberDims other vs (dr1, n1) = Some (dr', n')"
    by (auto simp: Let_def split: option.splits)
  from Cons.IH [OF this] renumberOneDim_operands [of v n] r show ?case by auto
qed

lemma renumber_operands:
  "renumber other n = Some (m, n') \<Longrightarrow>
     set (getOperandsOfNormalizer n')
       \<subseteq> set (getOperandsOfNormalizer n) \<union> set (getOperandsOfNormalizer other)"
proof -
  assume a: "renumber other n = Some (m, n')"
  then obtain dr n1 where d: "renumberDims other (reorderedDims other) ([], n) = Some (dr, n1)"
    and n': "n' = n1 \<lparr> concatenatedSymbols := concatenatedSymbols n1 @ concatenatedSymbols other \<rparr>"
    by (auto simp: renumber_def Let_def split: option.splits)
  from renumberDims_operands [OF d] n' show ?thesis
    by (auto simp: getOperandsOfNormalizer_def)
qed

lemma getOperandsOfNormalizer_affineMap [simp]:
  "getOperandsOfNormalizer (n \<lparr> affineMap := x \<rparr>) = getOperandsOfNormalizer n"
  by (simp add: getOperandsOfNormalizer_def)

lemma ctor_past_cap_operands:
  assumes "AffineApplyNormalizer_ctor (Suc d) m ts = Some n"
  shows "set (getOperandsOfNormalizer n) \<subseteq> set ts"
proof -
  have "\<exists>nd aux n1. dispatchOperands nd 0 ts ([], emptyNormalizer) = Some (aux, n1)
          \<and> getOperandsOfNormalizer n = getOperandsOfNormalizer n1"
    using assms
    apply (subst (asm) AffineApplyNormalizer_ctor.simps)
    apply (simp add: Let_def kMaxAffineApplyDepth_def split: option.splits if_splits prod.splits)
     apply (metis getOperandsOfNormalizer_affineMap)+
    done
  then obtain nd aux n1 where
    d: "dispatchOperands nd 0 ts ([], emptyNormalizer) = Some (aux, n1)"
    and n: "getOperandsOfNormalizer n = getOperandsOfNormalizer n1"
    by blast
  from dispatchOperands_operands [OF d] n show ?thesis
    by (simp add: getOperandsOfNormalizer_def emptyNormalizer_def)
qed

lemma leavesOf_Cons: "leavesOf ts \<subseteq> leavesOf (t # ts)"
  by (auto simp: leavesOf_def)

lemma composeOperands_operands:
  "composeOperands (\<lambda>am aops. AffineApplyNormalizer_ctor (Suc d) am aops) nb i ts (aux, n)
      = Some (aux', n') \<Longrightarrow>
     set (getOperandsOfNormalizer n') \<subseteq> set (getOperandsOfNormalizer n) \<union> leavesOf ts"
proof (induction ts arbitrary: i aux n)
  case Nil
  then show ?case by simp
next
  case (Cons t ts)
  show ?case
  proof (cases "dyn_cast_AffineApplyOp t")
    case None
    show ?thesis
    proof (cases "i < nb")
      case True
      obtain e n1 where r: "renumberOneDim t n = (e, n1)" by (cases "renumberOneDim t n")
      from Cons.prems None True r
      have "composeOperands (\<lambda>am aops. AffineApplyNormalizer_ctor (Suc d) am aops) nb (i + 1) ts
              (aux @ [e], n1) = Some (aux', n')"
        by simp
      moreover have "t \<in> leavesOf (t # ts)"
        using None by (simp add: leavesOf_def isa_and_nonnull_AffineApplyOp_def)
      moreover have "set (getOperandsOfNormalizer n1) \<subseteq> insert t (set (getOperandsOfNormalizer n))"
        using renumberOneDim_operands [of t n] r by simp
      ultimately show ?thesis
        using Cons.IH [of "i + 1" "aux @ [e]" n1] leavesOf_Cons [of ts t] by blast
    next
      case False
      with Cons.prems None
      have "composeOperands (\<lambda>am aops. AffineApplyNormalizer_ctor (Suc d) am aops) nb (i + 1) ts
              (aux, n \<lparr> concatenatedSymbols := concatenatedSymbols n @ [t] \<rparr>) = Some (aux', n')"
        by simp
      moreover have "t \<in> leavesOf (t # ts)"
        using None by (simp add: leavesOf_def isa_and_nonnull_AffineApplyOp_def)
      moreover have "set (getOperandsOfNormalizer
                       (n \<lparr> concatenatedSymbols := concatenatedSymbols n @ [t] \<rparr>))
                     \<subseteq> insert t (set (getOperandsOfNormalizer n))"
        by (auto simp: getOperandsOfNormalizer_def)
      ultimately show ?thesis
        using Cons.IH [of "i + 1" aux "n \<lparr> concatenatedSymbols := concatenatedSymbols n @ [t] \<rparr>"]
              leavesOf_Cons [of ts t] by blast
    qed
  next
    case (Some p)
    obtain am aops where p: "p = (am, aops)" by (cases p)
    from Cons.prems Some p obtain nn rm n1 e es where
      c: "AffineApplyNormalizer_ctor (Suc d) am aops = Some nn"
      and r: "renumber nn n = Some (rm, n1)"
      and rest: "composeOperands (\<lambda>am aops. AffineApplyNormalizer_ctor (Suc d) am aops) nb (i + 1) ts
              (aux @ [e], n1) = Some (aux', n')"
      by (auto split: option.splits list.splits)
    from ctor_past_cap_operands [OF c] renumber_operands [OF r]
    have "set (getOperandsOfNormalizer n1) \<subseteq> set (getOperandsOfNormalizer n) \<union> set aops" by auto
    moreover have "set aops \<subseteq> leavesOf (t # ts)" using Some p by (auto simp: leavesOf_def)
    ultimately show ?thesis using Cons.IH [OF rest] leavesOf_Cons [of ts t] by auto
  qed
qed


lemma ctor_top_operands:
  assumes "AffineApplyNormalizer_ctor 0 m ts = Some n"
  shows "set (getOperandsOfNormalizer n) \<subseteq> leavesOf ts"
proof -
  have "\<exists>nb aux n1.
          composeOperands (\<lambda>am aops. AffineApplyNormalizer_ctor (Suc 0) am aops) nb 0 ts
            ([], emptyNormalizer) = Some (aux, n1)
          \<and> getOperandsOfNormalizer n = getOperandsOfNormalizer n1"
    using assms
    apply (subst (asm) AffineApplyNormalizer_ctor.simps)
    apply (simp add: Let_def kMaxAffineApplyDepth_def split: option.splits if_splits prod.splits)
     apply (metis getOperandsOfNormalizer_affineMap)+
    done
  then obtain nb aux n1 where
    c: "composeOperands (\<lambda>am aops. AffineApplyNormalizer_ctor (Suc 0) am aops) nb 0 ts
            ([], emptyNormalizer) = Some (aux, n1)"
    and n: "getOperandsOfNormalizer n = getOperandsOfNormalizer n1"
    by blast
  from composeOperands_operands [OF c] n show ?thesis
    by (simp add: getOperandsOfNormalizer_def emptyNormalizer_def)
qed

lemma promotedSymbolsLoop_set:
  "promotedSymbolsLoop nd old i vs (a, b, dr, res, rem) = (a', b', dr', res', rem') \<Longrightarrow>
     set res' \<union> set rem' \<subseteq> set res \<union> set rem \<union> set vs"
proof (induction vs arbitrary: i a b dr res rem)
  case Nil
  then show ?case by simp
next
  case (Cons v vs)
  from Cons.prems show ?case
    by (auto split: if_splits dest!: Cons.IH)
qed

lemma canonicalizePromotedSymbols_set:
  assumes "canonicalizePromotedSymbols m ts = Some (m', ts')"
  shows "set ts' \<subseteq> set ts \<and> (ts \<noteq> [] \<longrightarrow> getNumInputs m' = length ts')"
proof (cases "ts = []")
  case True
  with assms show ?thesis by (simp add: canonicalizePromotedSymbols_def)
next
  case False
  obtain a b dr res rem where
    l: "promotedSymbolsLoop (numDims m) (numSymbols m) 0 ts (0, 0, replicate (numDims m) None, [], [])
          = (a, b, dr, res, rem)"
    by (metis prod_cases5)
  from assms False l have "ts' = res @ rem" and "getNumInputs m' = length ts'"
    by (auto simp: canonicalizePromotedSymbols_def Let_def split: if_splits option.splits)
  with promotedSymbolsLoop_set [OF l] show ?thesis by auto
qed

lemma remapLoop_set:
  "remapLoop mk used ts off idxs (a, rm, res, seen) = (a', rm', res', seen') \<Longrightarrow>
     set res' \<subseteq> set res \<union> (\<lambda>i. ts ! (i + off)) ` set idxs"
proof (induction idxs arbitrary: a rm res seen)
  case Nil
  then show ?case by simp
next
  case (Cons i idxs)
  from Cons.prems show ?case
    by (auto split: if_splits option.splits dest!: Cons.IH)
qed

lemma canonicalizeMapAndOperands_set:
  assumes "canonicalizeMapAndOperands m ts = Some (m', ts')"
  shows "set ts' \<subseteq> set ts"
proof (cases "ts = []")
  case True
  with assms show ?thesis by (simp add: canonicalizeMapAndOperands_def)
next
  case False
  from assms False obtain m1 ts1 where
    p: "canonicalizePromotedSymbols m ts = Some (m1, ts1)"
    by (auto simp: canonicalizeMapAndOperands_def split: if_splits option.splits)
  from canonicalizePromotedSymbols_set [OF p] False
  have sub: "set ts1 \<subseteq> set ts" and len: "getNumInputs m1 = length ts1" by auto
  from assms False p obtain ud us where
    "walkExprs_markUsed (results m1)
       (replicate (numDims m1) False, replicate (numSymbols m1) False) = Some (ud, us)"
    by (auto simp: canonicalizeMapAndOperands_def split: if_splits option.splits)
  obtain a rm res seen where
    l1: "remapLoop AffineDimExpr ud ts1 0 [0..<numDims m1] (0, replicate (numDims m1) None, [], [])
          = (a, rm, res, seen)"
    by (metis prod_cases4)
  obtain a2 rm2 res2 seen2 where
    l2: "remapLoop AffineSymbolExpr us ts1 (numDims m1) [0..<numSymbols m1]
           (0, replicate (numSymbols m1) None, res, [])
          = (a2, rm2, res2, seen2)"
    by (metis prod_cases4)
  from assms False p \<open>walkExprs_markUsed _ _ = _\<close> l1 l2 have "ts' = res2"
    by (auto simp: canonicalizeMapAndOperands_def Let_def split: if_splits option.splits)
  moreover have "set res \<subseteq> set ts1"
    using remapLoop_set [OF l1] len by (auto simp: getNumInputs_def)
  moreover have "set res2 \<subseteq> set res \<union> set ts1"
    using remapLoop_set [OF l2] len by (auto simp: getNumInputs_def)
  ultimately show ?thesis using sub by auto
qed

lemma leavesOf_depth:
  assumes "list_ex isa_and_nonnull_AffineApplyOp ts" and "v \<in> leavesOf ts"
  shows "applyDepth v < maxApplyDepth ts"
proof -
  from assms(1) obtain t where t: "t \<in> set ts" "isa_and_nonnull_AffineApplyOp t"
    by (auto simp: list_ex_iff)
  then have pos: "0 < maxApplyDepth ts"
    using applyDepth_pos [of t] applyDepth_le_max [of t ts] by simp
  from assms(2) show ?thesis
  proof (simp add: leavesOf_def, elim disjE conjE bexE exE)
    assume "\<not> isa_and_nonnull_AffineApplyOp v"
    then show ?thesis using pos by (simp add: applyDepth_zero)
  next
    fix t' m aops
    assume "t' \<in> set ts" "dyn_cast_AffineApplyOp t' = Some (m, aops)" "v \<in> set aops"
    then show ?thesis
      using applyDepth_operand [of t' m aops v] applyDepth_le_max [of t' ts] by simp
  qed
qed

lemma compose_decreases_depth:
  assumes "composeAffineMapAndOperands m ts = Some (m', ts')"
      and "list_ex isa_and_nonnull_AffineApplyOp ts"
  shows "maxApplyDepth ts' < maxApplyDepth ts"
proof -
  from assms(1) obtain n nm where
    c: "AffineApplyNormalizer_ctor 0 m ts = Some n"
    and k: "canonicalizeMapAndOperands nm (getOperandsOfNormalizer n) = Some (m', ts')"
    by (auto simp: composeAffineMapAndOperands_def split: option.splits)
  have sub: "set ts' \<subseteq> leavesOf ts"
    using ctor_top_operands [OF c] canonicalizeMapAndOperands_set [OF k] by blast
  from assms(2) obtain t where t: "t \<in> set ts" "isa_and_nonnull_AffineApplyOp t"
    by (auto simp: list_ex_iff)
  then have pos: "0 < maxApplyDepth ts"
    using applyDepth_pos [of t] applyDepth_le_max [of t ts] by simp
  show ?thesis
    by (rule maxApplyDepth_less [OF pos]) (use sub leavesOf_depth [OF assms(2)] in blast)
qed

lemma fullyCompose_returns:
  "\<exists>r. fullyComposeAffineMapAndOperands m ts = Some r"
proof (induction "maxApplyDepth ts" arbitrary: m ts rule: less_induct)
  case less
  show ?case
  proof (cases "list_ex isa_and_nonnull_AffineApplyOp ts")
    case False
    then show ?thesis by (subst fullyComposeAffineMapAndOperands.simps) simp
  next
    case True
    show ?thesis
    proof (cases "composeAffineMapAndOperands m ts")
      case None
      with True show ?thesis by (subst fullyComposeAffineMapAndOperands.simps) simp
    next
      case (Some p)
      obtain m' ts' where p: "p = (m', ts')" by (cases p)
      from compose_decreases_depth [of m ts m' ts'] Some p True
      have "maxApplyDepth ts' < maxApplyDepth ts" by simp
      from less [OF this] obtain r where "fullyComposeAffineMapAndOperands m' ts' = Some r" by blast
      with True Some p show ?thesis by (subst fullyComposeAffineMapAndOperands.simps) simp
    qed
  qed
qed

lemma fullyCompose_result:
  "fullyComposeAffineMapAndOperands m ts = Some (Some (m', ts')) \<Longrightarrow>
     \<not> list_ex isa_and_nonnull_AffineApplyOp ts'"
proof (induction "maxApplyDepth ts" arbitrary: m ts rule: less_induct)
  case less
  show ?case
  proof (cases "list_ex isa_and_nonnull_AffineApplyOp ts")
    case False
    with less.prems show ?thesis
      by (subst (asm) fullyComposeAffineMapAndOperands.simps) simp
  next
    case True
    show ?thesis
    proof (cases "composeAffineMapAndOperands m ts")
      case None
      with True less.prems show ?thesis
        by (subst (asm) fullyComposeAffineMapAndOperands.simps) simp
    next
      case (Some p)
      obtain m1 ts1 where p: "p = (m1, ts1)" by (cases p)
      from compose_decreases_depth [of m ts m1 ts1] Some p True
      have d: "maxApplyDepth ts1 < maxApplyDepth ts" by simp
      from less.prems True Some p
      have "fullyComposeAffineMapAndOperands m1 ts1 = Some (Some (m', ts'))"
        by (subst (asm) fullyComposeAffineMapAndOperands.simps) simp
      from less.hyps [OF d this] show ?thesis .
    qed
  qed
qed

text \<open>
  C2, as the code has it. The loop of \<open>fullyComposeAffineMapAndOperands\<close> returns for
  every map and operand list. A pass that does not abort, on operands of which one is the
  result of an \<open>affine.apply\<close>, strictly shortens the longest chain of
  \<open>affine.apply\<close> operations among the operands; and no operand of the final result is
  the result of an \<open>affine.apply\<close>.
\<close>

theorem fullyCompose_terminates:
  "(\<exists>r. fullyComposeAffineMapAndOperands m ts = Some r)
   \<and> (composeAffineMapAndOperands m ts = Some (m1, ts1)
        \<and> list_ex isa_and_nonnull_AffineApplyOp ts
      \<longrightarrow> maxApplyDepth ts1 < maxApplyDepth ts)
   \<and> (fullyComposeAffineMapAndOperands m ts = Some (Some (m2, ts2))
      \<longrightarrow> \<not> list_ex isa_and_nonnull_AffineApplyOp ts2)"
  using fullyCompose_returns [of m ts] compose_decreases_depth [of m ts m1 ts1]
        fullyCompose_result [of m ts m2 ts2]
  by blast

theorem fullyCompose_terminates_witness:
  "(\<exists>r. fullyComposeAffineMapAndOperands
           \<lparr> numDims = 1, numSymbols = 0, results = [AffineDimExpr 0] \<rparr>
           [OpResult 1 IndexType
              (Operation
                 (AffineApplyOp \<lparr> numDims = 1, numSymbols = 0,
                    results = [AffineBinaryOpExpr Mul (AffineDimExpr 0) (AffineConstantExpr 2)] \<rparr>)
                 False [BlockArgument 0 IndexType False])] = Some r)
   \<and> maxApplyDepth [BlockArgument 0 IndexType False]
       < maxApplyDepth
           [OpResult 1 IndexType
              (Operation
                 (AffineApplyOp \<lparr> numDims = 1, numSymbols = 0,
                    results = [AffineBinaryOpExpr Mul (AffineDimExpr 0) (AffineConstantExpr 2)] \<rparr>)
                 False [BlockArgument 0 IndexType False])]
   \<and> \<not> list_ex isa_and_nonnull_AffineApplyOp [BlockArgument 0 IndexType False]"
proof -
  let ?m = "\<lparr> numDims = 1, numSymbols = 0, results = [AffineDimExpr 0] \<rparr>"
  let ?a = "OpResult 1 IndexType
              (Operation
                 (AffineApplyOp \<lparr> numDims = 1, numSymbols = 0,
                    results = [AffineBinaryOpExpr Mul (AffineDimExpr 0) (AffineConstantExpr 2)] \<rparr>)
                 False [BlockArgument 0 IndexType False])"
  let ?m' = "\<lparr> numDims = 1, numSymbols = 0,
               results = [AffineBinaryOpExpr Mul (AffineDimExpr 0) (AffineConstantExpr 2)] \<rparr>"
  have c: "composeAffineMapAndOperands ?m [?a] = Some (?m', [BlockArgument 0 IndexType False])"
    by code_simp
  have f: "fullyComposeAffineMapAndOperands ?m [?a]
             = Some (Some (?m', [BlockArgument 0 IndexType False]))"
    by code_simp
  have l: "list_ex isa_and_nonnull_AffineApplyOp [?a]"
    by code_simp
  from fullyCompose_terminates
         [of ?m "[?a]" ?m' "[BlockArgument 0 IndexType False]" ?m'
             "[BlockArgument 0 IndexType False]"] c f l
  show ?thesis by blast
qed

text \<open>
  C2 as stated fails: a pass can increase the number of operands that are results of an
  \<open>affine.apply\<close>. One operand, the sum of two values that are each the result of an
  \<open>affine.apply\<close>, is replaced by these two.
\<close>

theorem compose_pass_increases_apply_operands_counterexample:
  "composeAffineMapAndOperands
     \<lparr> numDims = 1, numSymbols = 0, results = [AffineDimExpr 0] \<rparr>
     [OpResult 3 IndexType
        (Operation
           (AffineApplyOp \<lparr> numDims = 2, numSymbols = 0,
              results = [AffineBinaryOpExpr Add (AffineDimExpr 0) (AffineDimExpr 1)] \<rparr>)
           False
           [OpResult 1 IndexType
              (Operation
                 (AffineApplyOp \<lparr> numDims = 1, numSymbols = 0,
                    results = [AffineBinaryOpExpr Mul (AffineDimExpr 0) (AffineConstantExpr 2)] \<rparr>)
                 False [BlockArgument 0 IndexType False]),
            OpResult 2 IndexType
              (Operation
                 (AffineApplyOp \<lparr> numDims = 1, numSymbols = 0,
                    results = [AffineBinaryOpExpr Mul (AffineDimExpr 0) (AffineConstantExpr 3)] \<rparr>)
                 False [BlockArgument 4 IndexType False])])]
   = Some (\<lparr> numDims = 2, numSymbols = 0,
              results = [AffineBinaryOpExpr Add (AffineDimExpr 0) (AffineDimExpr 1)] \<rparr>,
           [OpResult 1 IndexType
              (Operation
                 (AffineApplyOp \<lparr> numDims = 1, numSymbols = 0,
                    results = [AffineBinaryOpExpr Mul (AffineDimExpr 0) (AffineConstantExpr 2)] \<rparr>)
                 False [BlockArgument 0 IndexType False]),
            OpResult 2 IndexType
              (Operation
                 (AffineApplyOp \<lparr> numDims = 1, numSymbols = 0,
                    results = [AffineBinaryOpExpr Mul (AffineDimExpr 0) (AffineConstantExpr 3)] \<rparr>)
                 False [BlockArgument 4 IndexType False])])
   \<and> length (filter isa_and_nonnull_AffineApplyOp
       [OpResult 3 IndexType
        (Operation
           (AffineApplyOp \<lparr> numDims = 2, numSymbols = 0,
              results = [AffineBinaryOpExpr Add (AffineDimExpr 0) (AffineDimExpr 1)] \<rparr>)
           False
           [OpResult 1 IndexType
              (Operation
                 (AffineApplyOp \<lparr> numDims = 1, numSymbols = 0,
                    results = [AffineBinaryOpExpr Mul (AffineDimExpr 0) (AffineConstantExpr 2)] \<rparr>)
                 False [BlockArgument 0 IndexType False]),
            OpResult 2 IndexType
              (Operation
                 (AffineApplyOp \<lparr> numDims = 1, numSymbols = 0,
                    results = [AffineBinaryOpExpr Mul (AffineDimExpr 0) (AffineConstantExpr 3)] \<rparr>)
                 False [BlockArgument 4 IndexType False])])]) = 1
   \<and> length (filter isa_and_nonnull_AffineApplyOp
          [OpResult 1 IndexType
              (Operation
                 (AffineApplyOp \<lparr> numDims = 1, numSymbols = 0,
                    results = [AffineBinaryOpExpr Mul (AffineDimExpr 0) (AffineConstantExpr 2)] \<rparr>)
                 False [BlockArgument 0 IndexType False]),
            OpResult 2 IndexType
              (Operation
                 (AffineApplyOp \<lparr> numDims = 1, numSymbols = 0,
                    results = [AffineBinaryOpExpr Mul (AffineDimExpr 0) (AffineConstantExpr 3)] \<rparr>)
                 False [BlockArgument 4 IndexType False])]) = 2"
  by code_simp

section \<open>Operands and uses of a created operation\<close>

lemma newOpOperand_inv:
  assumes "newOpOperand v k st = Some st'" and "createInv newId S k st"
  shows "createInv newId S (Suc k) st'
         \<and> opOperands (fst st') = opOperands (fst st) @ [v]"
proof -
  obtain inst uses where st: "st = (inst, uses)" by (cases st)
  from assms st have k: "k < S" and
    st': "st' = (inst \<lparr> opOperands := opOperands inst @ [v] \<rparr>,
                 uses (v := \<lparr> useOwner = newId, useOperandNumber = k \<rparr> # uses v))"
    by (auto simp: newOpOperand_def createInv_def split: if_splits)
  from assms(2) st have len: "length (opOperands inst) = k"
    and cnt: "\<And>i. i < k \<Longrightarrow> count_list (uses (opOperands inst ! i))
                      \<lparr> useOwner = newId, useOperandNumber = i \<rparr> = 1"
    and fresh: "\<And>w u. u \<in> set (uses w) \<Longrightarrow> useOwner u = newId \<Longrightarrow> useOperandNumber u < k"
    and ids: "instId inst = newId" "operandStorageSize inst = S"
    by (auto simp: createInv_def)
  have nok: "count_list (uses v) \<lparr> useOwner = newId, useOperandNumber = k \<rparr> = 0"
  proof (rule ccontr)
    assume "count_list (uses v) \<lparr> useOwner = newId, useOperandNumber = k \<rparr> \<noteq> 0"
    then have "\<lparr> useOwner = newId, useOperandNumber = k \<rparr> \<in> set (uses v)"
      by (simp add: count_list_0_iff)
    from fresh [OF this] show False by simp
  qed
  have "\<forall>i<Suc k. count_list
          ((uses (v := \<lparr> useOwner = newId, useOperandNumber = k \<rparr> # uses v))
             ((opOperands inst @ [v]) ! i))
          \<lparr> useOwner = newId, useOperandNumber = i \<rparr> = 1"
  proof (intro allI impI)
    fix i assume "i < Suc k"
    show "count_list
          ((uses (v := \<lparr> useOwner = newId, useOperandNumber = k \<rparr> # uses v))
             ((opOperands inst @ [v]) ! i))
          \<lparr> useOwner = newId, useOperandNumber = i \<rparr> = 1"
    proof (cases "i = k")
      case True
      then show ?thesis using len nok by (simp add: nth_append)
    next
      case False
      with \<open>i < Suc k\<close> have "i < k" by simp
      then show ?thesis using len cnt [of i] False by (auto simp: nth_append)
    qed
  qed
  moreover have "\<forall>w. \<forall>u \<in> set ((uses (v := \<lparr> useOwner = newId, useOperandNumber = k \<rparr> # uses v)) w).
                   useOwner u = newId \<longrightarrow> useOperandNumber u < Suc k"
    using fresh by (auto simp: less_Suc_eq)
  ultimately show ?thesis using st st' len k ids by (simp add: createInv_def)
qed

lemma initNormalOperands_inv:
  "initNormalOperands ops k st = Some (rest, k', st') \<Longrightarrow> createInv newId S k st \<Longrightarrow>
     (\<exists>pre. ops = map Some pre @ rest \<and> k' = k + length pre
            \<and> opOperands (fst st') = opOperands (fst st) @ pre)
     \<and> (rest = [] \<or> (\<exists>rest'. rest = None # rest'))
     \<and> createInv newId S k' st'"
proof (induction ops k st rule: initNormalOperands.induct)
  case (1 nextOperand st)
  then show ?case by simp
next
  case (2 rest0 nextOperand st)
  then show ?case by auto
next
  case (3 v rest0 nextOperand st)
  from "3.prems" obtain st1 where n: "newOpOperand v nextOperand st = Some st1"
    and r: "initNormalOperands rest0 (nextOperand + 1) st1 = Some (rest, k', st')"
    by (auto split: option.splits)
  from newOpOperand_inv [OF n "3.prems"(2)]
  have i1: "createInv newId S (nextOperand + 1) st1"
    and o1: "opOperands (fst st1) = opOperands (fst st) @ [v]" by simp_all
  from "3.IH" [OF n r i1] obtain pre where
    "rest0 = map Some pre @ rest" "k' = nextOperand + 1 + length pre"
    "opOperands (fst st') = opOperands (fst st1) @ pre"
    and rr: "rest = [] \<or> (\<exists>rest'. rest = None # rest')" and inv: "createInv newId S k' st'"
    by blast
  then have "Some v # rest0 = map Some (v # pre) @ rest \<and> k' = nextOperand + length (v # pre)
       \<and> opOperands (fst st') = opOperands (fst st) @ (v # pre)"
    using o1 by simp
  then show ?case using rr inv by blast
qed

lemma nonNull_simps [simp]:
  "nonNull [] = []" "nonNull (None # ps) = nonNull ps" "nonNull (Some v # ps) = v # nonNull ps"
  "nonNull (map Some vs @ ps) = vs @ nonNull ps"
  by (induction vs) (simp_all add: nonNull_def)

lemma initSuccessorOperands_inv:
  "initSuccessorOperands succs ops k c it st = Some (c', st') \<Longrightarrow> createInv newId S k st \<Longrightarrow>
     c' = c + length (filter (\<lambda>p. p = None) ops)
     \<and> opOperands (fst st') = opOperands (fst st) @ nonNull ops
     \<and> createInv newId S (k + length (nonNull ops)) st'"
proof (induction succs ops k c it st rule: initSuccessorOperands.induct)
  case (1 successors nextOperand currentSuccNum succIt st)
  then show ?case by simp
next
  case (2 successors rest nextOperand currentSuccNum succIt inst uses)
  let ?it = "if currentSuccNum \<noteq> 0 then succIt + 1 else succIt"
  let ?st = "(inst \<lparr> blockOperands := blockOperands inst @ [successors ! currentSuccNum],
                          succOperandCounts := (succOperandCounts inst)[?it := 0] \<rparr>, uses)"
  from "2.prems"(1) have c: "currentSuccNum < length successors"
    and n: "\<not> (currentSuccNum \<noteq> 0 \<and> ?it = length successors)"
    and r: "initSuccessorOperands successors rest nextOperand (currentSuccNum + 1) ?it ?st
             = Some (c', st')"
    by (auto simp: Let_def split: if_splits)
  have i: "createInv newId S nextOperand ?st" using "2.prems"(2) by (simp add: createInv_def)
  from "2.IH" [OF _ refl _ r i] c n show ?case by simp
next
  case (3 successors v rest nextOperand currentSuccNum succIt st)
  from "3.prems"(1) obtain inst1 uses1 where n: "newOpOperand v nextOperand st = Some (inst1, uses1)"
    and r: "initSuccessorOperands successors rest (nextOperand + 1) currentSuccNum succIt
            (inst1 \<lparr> succOperandCounts :=
                      (succOperandCounts inst1)[succIt := succOperandCounts inst1 ! succIt + 1] \<rparr>,
             uses1) = Some (c', st')"
    by (auto split: option.splits)
  from newOpOperand_inv [OF n "3.prems"(2)]
  have i1: "createInv newId S (Suc nextOperand) (inst1, uses1)"
    and o1: "opOperands inst1 = opOperands (fst st) @ [v]" by simp_all
  have i2: "createInv newId S (nextOperand + 1)
             (inst1 \<lparr> succOperandCounts :=
                      (succOperandCounts inst1)[succIt := succOperandCounts inst1 ! succIt + 1] \<rparr>,
             uses1)"
    using i1 by (simp add: createInv_def)
  from "3.IH" [OF n refl r i2] o1 show ?case by simp
qed

text \<open>
  C6, as the code has it. When \<open>Operation::create\<close> returns, for an identity that no
  use refers to yet, the number of operands of the operation is the size of the operand
  list less the number of successors: the null sentinels are not stored. The operands are
  the non-null entries in order, and every operand slot has exactly one use in the use
  list of its value.
\<close>

theorem create_operands_and_uses:
  assumes "Operation_create newId isKnownNonTerminator operands numResultTypes successors
             numRegions uses = Some (inst, uses')"
      and "\<forall>v. \<forall>u \<in> set (uses v). useOwner u \<noteq> newId"
  shows "getNumOperands inst = length operands - length successors
         \<and> opOperands inst = map the (filter (\<lambda>p. p \<noteq> None) operands)
         \<and> length (opOperands inst) = getNumOperands inst
         \<and> (\<forall>i < getNumOperands inst.
               count_list (uses' (opOperands inst ! i))
                 \<lparr> useOwner = instId inst, useOperandNumber = i \<rparr> = 1)"
proof -
  define S where "S = nat ((int (length operands) - int (length successors)) mod 2 ^ 32)"
  let ?inst0 = "\<lparr> instId = newId, operandStorageSize = S, opOperands = [],
                   blockOperands = [], succOperandCounts = replicate (length successors) 0,
                   instNumResults = numResultTypes, instNumRegions = numRegions \<rparr>"
  have inv0: "createInv newId S 0 (?inst0, uses)"
    using assms(2) by (auto simp: createInv_def)
  from assms(1) obtain rest k st where
    l1: "initNormalOperands operands 0 (?inst0, uses) = Some (rest, k, st)"
    by (auto simp: Operation_create_def Let_def S_def split: if_splits option.splits)
  from initNormalOperands_inv [OF l1 inv0] obtain pre where
    ops: "operands = map Some pre @ rest" and k: "k = length pre"
    and o1: "opOperands (fst st) = pre" and inv1: "createInv newId S k st"
    by auto
  have fin: "\<exists>nulls. nulls = length (filter (\<lambda>p. p = None) rest)
        \<and> nulls = length successors
        \<and> opOperands inst = pre @ nonNull rest
        \<and> createInv newId S (k + length (nonNull rest)) (inst, uses')"
  proof (cases "rest = []")
    case True
    with assms(1) l1 have "st = (inst, uses')" "length successors = 0"
      by (auto simp: Operation_create_def Let_def S_def split: if_splits option.splits)
    with True o1 inv1 show ?thesis by simp
  next
    case False
    with assms(1) l1 obtain c where
      l2: "initSuccessorOperands successors rest k 0 0 st = Some (c, (inst, uses'))"
      and c: "c = length successors"
      by (auto simp: Operation_create_def Let_def S_def split: if_splits option.splits)
    from initSuccessorOperands_inv [OF l2 inv1] c o1 show ?thesis by simp
  qed
  then have nulls: "length (filter (\<lambda>p. p = None) rest) = length successors"
    and oi: "opOperands inst = pre @ nonNull rest"
    and inv: "createInv newId S (k + length (nonNull rest)) (inst, uses')"
    by auto
  have nn: "opOperands inst = nonNull operands" using oi ops by simp
  have "length (filter (\<lambda>p. p \<noteq> None) operands) + length (filter (\<lambda>p. p = None) operands)
          = length operands"
    using sum_length_filter_compl [of "\<lambda>p. p \<noteq> None" operands] by simp
  moreover have "length (filter (\<lambda>p. p = None) operands) = length successors"
    using ops nulls by simp
  ultimately have cnt: "length (nonNull operands) = length operands - length successors"
    and le: "length successors \<le> length operands"
    by (simp_all add: nonNull_def)
  from inv have sz: "operandStorageSize inst = S" and id: "instId inst = newId"
    and len: "length (opOperands inst) \<le> S"
    and uses: "\<forall>i < length (opOperands inst).
                 count_list (uses' (opOperands inst ! i))
                   \<lparr> useOwner = newId, useOperandNumber = i \<rparr> = 1"
    by (auto simp: createInv_def)
  have "S \<le> length operands - length successors"
  proof -
    have "(int (length operands) - int (length successors)) mod 2 ^ 32
            \<le> int (length operands) - int (length successors)"
      using le by (intro zmod_le_nonneg_dividend) simp
    then show ?thesis using le unfolding S_def by linarith
  qed
  with len nn cnt have S: "S = length operands - length successors" by simp
  show ?thesis
    using sz S nn cnt uses id by (simp add: getNumOperands_def nonNull_def)
qed

theorem create_operands_and_uses_witness:
  "(case Operation_create 7 False [Some 1, None, Some 2] 1 [9] 0 (\<lambda>v. []) of
      None \<Rightarrow> False
    | Some (inst, uses') \<Rightarrow>
        getNumOperands inst = 2 \<and> opOperands inst = [1, 2]
        \<and> count_list (uses' 1) \<lparr> useOwner = 7, useOperandNumber = 0 \<rparr> = 1
        \<and> count_list (uses' 2) \<lparr> useOwner = 7, useOperandNumber = 1 \<rparr> = 1)"
proof -
  have "Operation_create 7 False [Some 1, None, Some 2] 1 [9] 0 (\<lambda>v. []) \<noteq> None"
    by code_simp
  then obtain inst uses' where
    c: "Operation_create 7 False [Some 1, None, Some 2] 1 [9] 0 (\<lambda>v. []) = Some (inst, uses')"
    by auto
  have f: "\<forall>v. \<forall>u \<in> set ((\<lambda>v. []) v :: OpOperand list). useOwner u \<noteq> 7"
    by simp
  note t = create_operands_and_uses [OF c f]
  from t have n: "getNumOperands inst = 2" by simp
  from t have o: "opOperands inst = [1, 2]" by simp
  from t have u: "\<forall>i < getNumOperands inst.
               count_list (uses' (opOperands inst ! i))
                 \<lparr> useOwner = instId inst, useOperandNumber = i \<rparr> = 1"
    by blast
  have "map_option (instId \<circ> fst)
          (Operation_create 7 False [Some 1, None, Some 2] 1 [9] 0 (\<lambda>v. [])) = Some 7"
    by code_simp
  with c have id: "instId inst = 7" by simp
  from u [rule_format, of 0] u [rule_format, of 1] n o id
  have "count_list (uses' 1) \<lparr> useOwner = 7, useOperandNumber = 0 \<rparr> = 1"
    and "count_list (uses' 2) \<lparr> useOwner = 7, useOperandNumber = 1 \<rparr> = 1"
    by simp_all
  with c n o show ?thesis by simp
qed

text \<open>
  C6 as stated fails for an operation with successors: with the operand list
  \<open>(v1, null, v2)\<close> and one successor, the operation has two operands, not three.
\<close>

theorem create_with_successor_counterexample:
  "map_option (getNumOperands \<circ> fst)
     (Operation_create 7 False [Some 1, None, Some 2] 1 [9] 0 (\<lambda>v. [])) = Some 2
   \<and> length [Some (1::nat), None, Some 2] = 3"
  by code_simp

section \<open>Canonicalization of a map and its operands\<close>

lemma those_map_Some:
  "(\<And>x. x \<in> set xs \<Longrightarrow> f x \<noteq> None) \<Longrightarrow> those (map f xs) = Some (map (\<lambda>x. the (f x)) xs)"
proof (induction xs)
  case Nil
  then show ?case by simp
next
  case (Cons a xs)
  from Cons.prems [of a] obtain y where y: "f a = Some y" by auto
  have "those (map f xs) = Some (map (\<lambda>x. the (f x)) xs)"
    by (rule Cons.IH) (simp add: Cons.prems)
  with y show ?case by simp
qed

lemma those_map_eq_Some:
  "those (map f xs) = Some ys \<Longrightarrow> (\<forall>x \<in> set xs. f x \<noteq> None) \<and> ys = map (\<lambda>x. the (f x)) xs"
  by (induction xs arbitrary: ys) (auto split: option.splits)

lemma replace_Dim: "replaceDimsAndSymbols_expr ds ss (AffineDimExpr i) = dimReplacement ds i"
  by (simp add: dimReplacement_def)

lemma replace_Sym: "replaceDimsAndSymbols_expr ds ss (AffineSymbolExpr j) = symReplacement ss j"
  by (simp add: symReplacement_def)

lemma replace_Some:
  "(\<And>i. i \<in> dimsOf e \<Longrightarrow> dimReplacement ds i \<noteq> None) \<Longrightarrow>
   (\<And>j. j \<in> symsOf e \<Longrightarrow> symReplacement ss j \<noteq> None) \<Longrightarrow>
   replaceDimsAndSymbols_expr ds ss e \<noteq> None"
proof (induction e)
  case (AffineDimExpr i)
  then show ?case unfolding replace_Dim by simp
next
  case (AffineSymbolExpr j)
  then show ?case unfolding replace_Sym by simp
next
  case (AffineConstantExpr c)
  then show ?case by simp
next
  case (AffineBinaryOpExpr k a b)
  have "replaceDimsAndSymbols_expr ds ss a \<noteq> None"
    by (rule AffineBinaryOpExpr.IH(1)) (simp_all add: AffineBinaryOpExpr.prems)
  moreover have "replaceDimsAndSymbols_expr ds ss b \<noteq> None"
    by (rule AffineBinaryOpExpr.IH(2)) (simp_all add: AffineBinaryOpExpr.prems)
  ultimately show ?case by auto
qed





lemma replaceMap_Some:
  assumes "\<And>i. i \<in> usedDimsOfMap m \<Longrightarrow> dimReplacement ds i \<noteq> None"
      and "\<And>j. j \<in> usedSymsOfMap m \<Longrightarrow> symReplacement ss j \<noteq> None"
  shows "\<exists>m'. replaceDimsAndSymbols m ds ss nd ns = Some m'"
proof -
  have "\<And>e. e \<in> set (results m) \<Longrightarrow> replaceDimsAndSymbols_expr ds ss e \<noteq> None"
  proof (rule replace_Some)
    fix e i assume "e \<in> set (results m)" "i \<in> dimsOf e"
    then have "i \<in> usedDimsOfMap m" by (auto simp: usedDimsOfMap_def)
    then show "dimReplacement ds i \<noteq> None" by (rule assms(1))
  next
    fix e j assume "e \<in> set (results m)" "j \<in> symsOf e"
    then have "j \<in> usedSymsOfMap m" by (auto simp: usedSymsOfMap_def)
    then show "symReplacement ss j \<noteq> None" by (rule assms(2))
  qed
  from those_map_Some [of "results m" "replaceDimsAndSymbols_expr ds ss", OF this]
  show ?thesis by (simp add: replaceDimsAndSymbols_def)
qed

lemma replaceMap_results:
  assumes "replaceDimsAndSymbols m ds ss nd ns = Some m'"
  shows "numDims m' = nd" and "numSymbols m' = ns"
    and "results m' = map (\<lambda>e. the (replaceDimsAndSymbols_expr ds ss e)) (results m)"
    and "\<And>e. e \<in> set (results m) \<Longrightarrow>
           replaceDimsAndSymbols_expr ds ss e = Some (the (replaceDimsAndSymbols_expr ds ss e))"
proof -
  from assms obtain rs where
    t: "those (map (replaceDimsAndSymbols_expr ds ss) (results m)) = Some rs"
    and m': "m' = \<lparr> numDims = nd, numSymbols = ns, results = rs \<rparr>"
    by (auto simp: replaceDimsAndSymbols_def split: option.splits)
  from those_map_eq_Some [OF t] m'
  show "numDims m' = nd" and "numSymbols m' = ns"
    and "results m' = map (\<lambda>e. the (replaceDimsAndSymbols_expr ds ss e)) (results m)"
    and "\<And>e. e \<in> set (results m) \<Longrightarrow>
           replaceDimsAndSymbols_expr ds ss e = Some (the (replaceDimsAndSymbols_expr ds ss e))"
    by auto
qed




lemma markBits_length [simp]: "length (markBits S bs) = length bs"
  by (simp add: markBits_def)

lemma markBits_nth [simp]: "i < length bs \<Longrightarrow> markBits S bs ! i = (bs ! i \<or> i \<in> S)"
  by (simp add: markBits_def)

lemma markBits_update: "p < length bs \<Longrightarrow> bs[p := True] = markBits {p} bs"
  by (rule nth_equalityI) (auto simp: nth_list_update)

lemma markBits_empty: "markBits {} bs = bs"
  by (rule nth_equalityI) auto

lemma markBits_markBits: "markBits T (markBits S bs) = markBits (S \<union> T) bs"
  by (rule nth_equalityI) auto

lemma markUsed_closed:
  "dimsOf e \<subseteq> {..<length ud} \<Longrightarrow> symsOf e \<subseteq> {..<length us} \<Longrightarrow>
     markUsed e (ud, us) = Some (markBits (dimsOf e) ud, markBits (symsOf e) us)"
proof (induction e arbitrary: ud us)
  case (AffineDimExpr p)
  then show ?case by (simp add: markBits_update markBits_empty)
next
  case (AffineSymbolExpr p)
  then show ?case by (simp add: markBits_update markBits_empty)
next
  case (AffineConstantExpr c)
  then show ?case by (simp add: markBits_empty)
next
  case (AffineBinaryOpExpr k a b)
  have a: "markUsed a (ud, us) = Some (markBits (dimsOf a) ud, markBits (symsOf a) us)"
    by (rule AffineBinaryOpExpr.IH(1)) (use AffineBinaryOpExpr.prems in auto)
  have b: "markUsed b (markBits (dimsOf a) ud, markBits (symsOf a) us)
      = Some (markBits (dimsOf b) (markBits (dimsOf a) ud), markBits (symsOf b) (markBits (symsOf a) us))"
    by (rule AffineBinaryOpExpr.IH(2)) (use AffineBinaryOpExpr.prems in auto)
  show ?case by (simp add: a b markBits_markBits)
qed

lemma walkExprs_markUsed_closed:
  "\<Union> (dimsOf ` set es) \<subseteq> {..<length ud} \<Longrightarrow> \<Union> (symsOf ` set es) \<subseteq> {..<length us} \<Longrightarrow>
     walkExprs_markUsed es (ud, us)
       = Some (markBits (\<Union> (dimsOf ` set es)) ud, markBits (\<Union> (symsOf ` set es)) us)"
proof (induction es arbitrary: ud us)
  case Nil
  then show ?case by (simp add: markBits_empty)
next
  case (Cons e es)
  have e: "markUsed e (ud, us) = Some (markBits (dimsOf e) ud, markBits (symsOf e) us)"
    by (rule markUsed_closed) (use Cons.prems in auto)
  have r: "walkExprs_markUsed es (markBits (dimsOf e) ud, markBits (symsOf e) us)
      = Some (markBits (\<Union> (dimsOf ` set es)) (markBits (dimsOf e) ud),
              markBits (\<Union> (symsOf ` set es)) (markBits (symsOf e) us))"
    by (rule Cons.IH) (use Cons.prems in auto)
  show ?case by (simp add: e r markBits_markBits Un_commute)
qed

lemma usedBits_of_validMap:
  assumes "validMap m"
  shows "\<exists>ud us. walkExprs_markUsed (results m)
           (replicate (numDims m) False, replicate (numSymbols m) False) = Some (ud, us)
         \<and> length ud = numDims m \<and> length us = numSymbols m
         \<and> (\<forall>i < numDims m. ud ! i = (i \<in> usedDimsOfMap m))
         \<and> (\<forall>j < numSymbols m. us ! j = (j \<in> usedSymsOfMap m))"
proof -
  from assms
  have "walkExprs_markUsed (results m) (replicate (numDims m) False, replicate (numSymbols m) False)
      = Some (markBits (usedDimsOfMap m) (replicate (numDims m) False),
              markBits (usedSymsOfMap m) (replicate (numSymbols m) False))"
    unfolding usedDimsOfMap_def usedSymsOfMap_def validMap_def
    by (intro walkExprs_markUsed_closed) simp_all
  then show ?thesis by simp
qed

lemma promotedSymbolsLoop_closed:
  "length dr = nd \<Longrightarrow>
   promotedSymbolsLoop nd old i vs (a, b, dr, res, rem) = (a', b', dr', res', rem') \<Longrightarrow>
     a' = a + length (filter (\<lambda>v. \<not> isValidSymbol v) (take (nd - i) vs)) \<and>
     b' = b + length (filter isValidSymbol (take (nd - i) vs)) \<and>
     res' = res @ filter (\<lambda>v. \<not> isValidSymbol v) (take (nd - i) vs) @ drop (nd - i) vs \<and>
     rem' = rem @ filter isValidSymbol (take (nd - i) vs) \<and>
     length dr' = nd \<and>
     (\<forall>k<nd. dr' ! k =
        (if i \<le> k \<and> k - i < length vs
         then Some (if isValidSymbol (vs ! (k - i))
                    then AffineSymbolExpr (old + b + length (filter isValidSymbol (take (k - i) vs)))
                    else AffineDimExpr (a + length (filter (\<lambda>v. \<not> isValidSymbol v) (take (k - i) vs))))
         else dr ! k))"
proof (induction vs arbitrary: i a b dr res rem)
  case Nil
  then show ?case by simp
next
  case (Cons v vs)
  show ?case
  proof (cases "i < nd")
    case False
    with Cons.prems(2)
    have r: "promotedSymbolsLoop nd old (i + 1) vs (a, b, dr, res @ [v], rem) = (a', b', dr', res', rem')"
      by simp
    from Cons.IH [OF Cons.prems(1) r] False show ?thesis by simp
  next
    case True
    then obtain d where d: "nd - i = Suc d" "nd - (i + 1) = d" by (cases "nd - i") auto
    show ?thesis
    proof (cases "isValidSymbol v")
      case v: True
      let ?dr = "dr[i := Some (AffineSymbolExpr (old + b))]"
      from Cons.prems(2) True v
      have r: "promotedSymbolsLoop nd old (i + 1) vs (a, b + 1, ?dr, res, rem @ [v])
                 = (a', b', dr', res', rem')"
        by simp
      have l: "length ?dr = nd" using Cons.prems(1) by simp
      note ih = Cons.IH [OF l r]
      have "\<forall>k<nd. dr' ! k =
        (if i \<le> k \<and> k - i < length (v # vs)
         then Some (if isValidSymbol ((v # vs) ! (k - i))
                    then AffineSymbolExpr (old + b + length (filter isValidSymbol (take (k - i) (v # vs))))
                    else AffineDimExpr (a + length (filter (\<lambda>v. \<not> isValidSymbol v) (take (k - i) (v # vs)))))
         else dr ! k)"
      proof (intro allI impI)
        fix k assume k: "k < nd"
        consider "k < i" | "k = i" | "i < k" by linarith
        then show "dr' ! k =
        (if i \<le> k \<and> k - i < length (v # vs)
         then Some (if isValidSymbol ((v # vs) ! (k - i))
                    then AffineSymbolExpr (old + b + length (filter isValidSymbol (take (k - i) (v # vs))))
                    else AffineDimExpr (a + length (filter (\<lambda>v. \<not> isValidSymbol v) (take (k - i) (v # vs)))))
         else dr ! k)"
        proof cases
          case 1
          with ih k show ?thesis by simp
        next
          case 2
          with ih k v Cons.prems(1) show ?thesis by simp
        next
          case 3
          then obtain j where j: "k - i = Suc j" "k - (i + 1) = j" by (cases "k - i") auto
          with ih k v 3 show ?thesis by (simp add: less_eq_Suc_le)
        qed
      qed
      with ih d v show ?thesis by simp
    next
      case v: False
      let ?dr = "dr[i := Some (AffineDimExpr a)]"
      from Cons.prems(2) True v
      have r: "promotedSymbolsLoop nd old (i + 1) vs (a + 1, b, ?dr, res @ [v], rem)
                 = (a', b', dr', res', rem')"
        by simp
      have l: "length ?dr = nd" using Cons.prems(1) by simp
      note ih = Cons.IH [OF l r]
      have "\<forall>k<nd. dr' ! k =
        (if i \<le> k \<and> k - i < length (v # vs)
         then Some (if isValidSymbol ((v # vs) ! (k - i))
                    then AffineSymbolExpr (old + b + length (filter isValidSymbol (take (k - i) (v # vs))))
                    else AffineDimExpr (a + length (filter (\<lambda>v. \<not> isValidSymbol v) (take (k - i) (v # vs)))))
         else dr ! k)"
      proof (intro allI impI)
        fix k assume k: "k < nd"
        consider "k < i" | "k = i" | "i < k" by linarith
        then show "dr' ! k =
        (if i \<le> k \<and> k - i < length (v # vs)
         then Some (if isValidSymbol ((v # vs) ! (k - i))
                    then AffineSymbolExpr (old + b + length (filter isValidSymbol (take (k - i) (v # vs))))
                    else AffineDimExpr (a + length (filter (\<lambda>v. \<not> isValidSymbol v) (take (k - i) (v # vs)))))
         else dr ! k)"
        proof cases
          case 1
          with ih k show ?thesis by simp
        next
          case 2
          with ih k v Cons.prems(1) show ?thesis by simp
        next
          case 3
          then obtain j where j: "k - i = Suc j" "k - (i + 1) = j" by (cases "k - i") auto
          with ih k v 3 show ?thesis by (simp add: less_eq_Suc_le)
        qed
      qed
      with ih d v show ?thesis by simp
    qed
  qed
qed



lemma filter_index_surj:
  "q < length (filter P xs) \<Longrightarrow>
     \<exists>k<length xs. P (xs ! k) \<and> length (filter P (take k xs)) = q"
proof (induction xs arbitrary: q)
  case Nil
  then show ?case by simp
next
  case (Cons x xs)
  show ?case
  proof (cases "P x")
    case False
    with Cons.prems have "q < length (filter P xs)" by simp
    from Cons.IH [OF this] obtain k where "k < length xs" "P (xs ! k)" "length (filter P (take k xs)) = q"
      by blast
    with False have "Suc k < length (x # xs) \<and> P ((x # xs) ! Suc k)
        \<and> length (filter P (take (Suc k) (x # xs))) = q" by simp
    then show ?thesis by blast
  next
    case True
    show ?thesis
    proof (cases q)
      case 0
      with True have "0 < length (x # xs) \<and> P ((x # xs) ! 0)
        \<and> length (filter P (take 0 (x # xs))) = q" by simp
      then show ?thesis by blast
    next
      case (Suc r)
      with Cons.prems True have "r < length (filter P xs)" by simp
      from Cons.IH [OF this] obtain k where "k < length xs" "P (xs ! k)" "length (filter P (take k xs)) = r"
        by blast
      with True Suc have "Suc k < length (x # xs) \<and> P ((x # xs) ! Suc k)
        \<and> length (filter P (take (Suc k) (x # xs))) = q" by simp
      then show ?thesis by blast
    qed
  qed
qed



lemma canonicalizePromotedSymbols_spec:
  assumes v: "validMap m" and n: "getNumInputs m = length ts" and ne: "ts \<noteq> []"
  defines "D \<equiv> filter (\<lambda>v. \<not> isValidSymbol v) (take (numDims m) ts)"
      and "VS \<equiv> filter isValidSymbol (take (numDims m) ts)"
      and "dr \<equiv> map (\<lambda>k. Some (if isValidSymbol (ts ! k)
                                then AffineSymbolExpr (numSymbols m + promotedPos ts k)
                                else AffineDimExpr (keptDimPos ts k))) [0..<numDims m]"
  shows "\<exists>m1. canonicalizePromotedSymbols m ts = Some (m1, D @ drop (numDims m) ts @ VS)
           \<and> replaceDimsAndSymbols m dr [] (length D) (numSymbols m + length VS) = Some m1"
proof -
  obtain a b dr' res rem where
    l: "promotedSymbolsLoop (numDims m) (numSymbols m) 0 ts (0, 0, replicate (numDims m) None, [], [])
          = (a, b, dr', res, rem)"
    by (metis prod_cases5)
  from promotedSymbolsLoop_closed [OF _ l]
  have a: "a = length D" and b: "b = length VS" and res: "res = D @ drop (numDims m) ts"
    and rem: "rem = VS" and ldr: "length dr' = numDims m"
    and dr': "\<forall>k<numDims m. dr' ! k =
        (if k < length ts
         then Some (if isValidSymbol (ts ! k)
                    then AffineSymbolExpr (numSymbols m + promotedPos ts k)
                    else AffineDimExpr (keptDimPos ts k))
         else None)"
    by (simp_all add: D_def VS_def promotedPos_def keptDimPos_def)
  have le: "numDims m \<le> length ts" using n by (simp add: getNumInputs_def)
  have "dr' = dr"
    by (rule nth_equalityI) (use ldr dr' le in \<open>auto simp: dr_def\<close>)
  have "\<exists>m1. replaceDimsAndSymbols m dr [] (length D) (numSymbols m + length VS) = Some m1"
  proof (rule replaceMap_Some)
    fix i assume "i \<in> usedDimsOfMap m"
    with v have "i < numDims m" by (auto simp: validMap_def)
    then show "dimReplacement dr i \<noteq> None" by (simp add: dimReplacement_def dr_def)
  next
    fix j show "symReplacement [] j \<noteq> None" by (simp add: symReplacement_def)
  qed
  then obtain m1 where m1: "replaceDimsAndSymbols m dr [] (length D) (numSymbols m + length VS) = Some m1"
    by blast
  from replaceMap_results(1,2) [OF m1]
  have "getNumInputs m1 = length (D @ drop (numDims m) ts @ VS)"
    using n by (simp add: getNumInputs_def)
  with l a b res rem \<open>dr' = dr\<close> m1 n ne
  have "canonicalizePromotedSymbols m ts = Some (m1, D @ drop (numDims m) ts @ VS)"
    by (simp add: canonicalizePromotedSymbols_def)
  with m1 show ?thesis by blast
qed




lemma seenOf_Nil [simp]: "seenOf mk [] = []"
  by (simp add: seenOf_def)

lemma seenOf_snoc: "seenOf mk (us @ [v]) = seenOf mk us @ [(v, mk (length us))]"
  by (simp add: seenOf_def)

lemma seenOf_None: "v \<notin> set us \<Longrightarrow> map_of (seenOf mk us) v = None"
  by (simp add: seenOf_def map_of_zip_is_None)

lemma seenOf_Some:
  assumes "v \<in> set us" "distinct us"
  shows "\<exists>q<length us. us ! q = v \<and> map_of (seenOf mk us) v = Some (mk q)"
proof -
  from assms(1) obtain q where q: "q < length us" "us ! q = v" by (auto simp: in_set_conv_nth)
  have "map_of (zip us (map mk [0..<length us])) (us ! q) = Some (map mk [0..<length us] ! q)"
    by (rule map_of_zip_nth) (use assms(2) q in simp_all)
  with q show ?thesis by (auto simp: seenOf_def)
qed

lemma extendDistinct_set [simp]: "set (extendDistinct us vs) = set us \<union> set vs"
  by (induction vs arbitrary: us) auto


lemma extendDistinct_prefix: "\<exists>ws. extendDistinct us vs = us @ ws"
proof (induction vs arbitrary: us)
  case Nil
  then show ?case by simp
next
  case (Cons v vs)
  from Cons [of "if v \<in> set us then us else us @ [v]"] show ?case by auto
qed

lemma extendDistinct_nth: "q < length us \<Longrightarrow> extendDistinct us vs ! q = us ! q"
  using extendDistinct_prefix [of us vs] by (auto simp: nth_append)

lemma extendDistinct_length: "length us \<le> length (extendDistinct us vs)"
  using extendDistinct_prefix [of us vs] by auto

lemma extendDistinct_id: "distinct vs \<Longrightarrow> extendDistinct [] vs = vs"
proof -
  have "distinct (us @ vs) \<Longrightarrow> extendDistinct us vs = us @ vs" for us
    by (induction vs arbitrary: us) auto
  from this [of "[]"] show "distinct vs \<Longrightarrow> extendDistinct [] vs = vs" by simp
qed

lemma remapLoop_closed:
  "distinct idxs \<Longrightarrow> distinct us \<Longrightarrow> (\<forall>k \<in> set idxs. k < length rm) \<Longrightarrow>
   remapLoop mk used ts off idxs (length us, rm, res0 @ us, seenOf mk us) = (a', rm', res', seen') \<Longrightarrow>
   us' = extendDistinct us (map (\<lambda>i. ts ! (i + off)) (filter (\<lambda>i. used ! i) idxs)) \<Longrightarrow>
     a' = length us' \<and> res' = res0 @ us' \<and> seen' = seenOf mk us' \<and> length rm' = length rm
     \<and> (\<forall>k. k \<notin> set idxs \<longrightarrow> rm' ! k = rm ! k)
     \<and> (\<forall>k \<in> set idxs. used ! k \<longrightarrow> (\<exists>q<length us'. rm' ! k = Some (mk q) \<and> us' ! q = ts ! (k + off)))"
proof (induction idxs arbitrary: us rm)
  case Nil
  then show ?case by simp
next
  case (Cons i idxs)
  from Cons.prems(1) have di: "distinct idxs" and ni: "i \<notin> set idxs" by simp_all
  from Cons.prems(3) have il: "i < length rm" and rl: "\<forall>k \<in> set idxs. k < length rm" by simp_all
  show ?case
  proof (cases "used ! i")
    case False
    with Cons.prems(4)
    have l: "remapLoop mk used ts off idxs (length us, rm, res0 @ us, seenOf mk us)
               = (a', rm', res', seen')" by simp
    from False Cons.prems(5)
    have u: "us' = extendDistinct us (map (\<lambda>i. ts ! (i + off)) (filter (\<lambda>i. used ! i) idxs))" by simp
    from Cons.IH [OF di Cons.prems(2) rl l u] False show ?thesis by auto
  next
    case True
    let ?v = "ts ! (i + off)"
    show ?thesis
    proof (cases "?v \<in> set us")
      case False
      let ?us = "us @ [?v]"
      let ?rm = "rm[i := Some (mk (length us))]"
      from seenOf_None [OF False, of mk] True Cons.prems(4)
      have l: "remapLoop mk used ts off idxs (length ?us, ?rm, res0 @ ?us, seenOf mk ?us)
               = (a', rm', res', seen')" by (simp add: seenOf_snoc)
      have d: "distinct ?us" using Cons.prems(2) False by simp
      have rl': "\<forall>k \<in> set idxs. k < length ?rm" using rl by simp
      from True False Cons.prems(5)
      have u: "us' = extendDistinct ?us (map (\<lambda>i. ts ! (i + off)) (filter (\<lambda>i. used ! i) idxs))" by simp
      note ih = Cons.IH [OF di d rl' l u]
      from ih ni il have "rm' ! i = Some (mk (length us))" by simp
      moreover have "length us < length us'"
        using extendDistinct_length [of ?us "map (\<lambda>i. ts ! (i + off)) (filter (\<lambda>i. used ! i) idxs)"] u
        by simp
      moreover have "us' ! length us = ?v"
        using extendDistinct_nth [of "length us" ?us
                "map (\<lambda>i. ts ! (i + off)) (filter (\<lambda>i. used ! i) idxs)"] u
        by simp
      ultimately have "\<exists>q<length us'. rm' ! i = Some (mk q) \<and> us' ! q = ?v" by blast
      with ih show ?thesis by auto
    next
      case in_us: True
      from seenOf_Some [OF in_us Cons.prems(2), of mk] obtain q where
        q: "q < length us" "us ! q = ?v" "map_of (seenOf mk us) ?v = Some (mk q)" by blast
      let ?rm = "rm[i := Some (mk q)]"
      from q True Cons.prems(4)
      have l: "remapLoop mk used ts off idxs (length us, ?rm, res0 @ us, seenOf mk us)
               = (a', rm', res', seen')" by simp
      have rl': "\<forall>k \<in> set idxs. k < length ?rm" using rl by simp
      from True in_us Cons.prems(5)
      have u: "us' = extendDistinct us (map (\<lambda>i. ts ! (i + off)) (filter (\<lambda>i. used ! i) idxs))" by simp
      note ih = Cons.IH [OF di Cons.prems(2) rl' l u]
      from ih ni il have "rm' ! i = Some (mk q)" by simp
      moreover have "q < length us'"
        using extendDistinct_length [of us "map (\<lambda>i. ts ! (i + off)) (filter (\<lambda>i. used ! i) idxs)"] u q(1)
        by simp
      moreover have "us' ! q = ?v"
        using extendDistinct_nth [OF q(1), of "map (\<lambda>i. ts ! (i + off)) (filter (\<lambda>i. used ! i) idxs)"] u q(2)
        by simp
      ultimately have "\<exists>q<length us'. rm' ! i = Some (mk q) \<and> us' ! q = ?v" by blast
      with ih show ?thesis by auto
    qed
  qed
qed









section \<open>Composition of a map in canonical form\<close>

lemma replace_identity:
  "(\<And>i. i \<in> dimsOf e \<Longrightarrow> dimReplacement ds i = Some (AffineDimExpr i)) \<Longrightarrow>
   (\<And>j. j \<in> symsOf e \<Longrightarrow> symReplacement ss j = Some (AffineSymbolExpr j)) \<Longrightarrow>
   replaceDimsAndSymbols_expr ds ss e = Some e"
proof (induction e)
  case (AffineDimExpr i)
  then show ?case unfolding replace_Dim by simp
next
  case (AffineSymbolExpr j)
  then show ?case unfolding replace_Sym by simp
next
  case (AffineConstantExpr c)
  then show ?case by simp
next
  case (AffineBinaryOpExpr k a b)
  have "replaceDimsAndSymbols_expr ds ss a = Some a"
    by (rule AffineBinaryOpExpr.IH(1)) (simp_all add: AffineBinaryOpExpr.prems)
  moreover have "replaceDimsAndSymbols_expr ds ss b = Some b"
    by (rule AffineBinaryOpExpr.IH(2)) (simp_all add: AffineBinaryOpExpr.prems)
  ultimately show ?case by simp
qed

lemma those_map_identity:
  "(\<And>x. x \<in> set xs \<Longrightarrow> f x = Some x) \<Longrightarrow> those (map f xs) = Some xs"
  by (induction xs) auto

lemma replaceMap_identity:
  assumes "\<And>i. i \<in> usedDimsOfMap m \<Longrightarrow> dimReplacement ds i = Some (AffineDimExpr i)"
      and "\<And>j. j \<in> usedSymsOfMap m \<Longrightarrow> symReplacement ss j = Some (AffineSymbolExpr j)"
  shows "replaceDimsAndSymbols m ds ss (numDims m) (numSymbols m) = Some m"
proof -
  have "\<And>e. e \<in> set (results m) \<Longrightarrow> replaceDimsAndSymbols_expr ds ss e = Some e"
  proof (rule replace_identity)
    fix e i assume "e \<in> set (results m)" "i \<in> dimsOf e"
    then have "i \<in> usedDimsOfMap m" by (auto simp: usedDimsOfMap_def)
    then show "dimReplacement ds i = Some (AffineDimExpr i)" by (rule assms(1))
  next
    fix e j assume "e \<in> set (results m)" "j \<in> symsOf e"
    then have "j \<in> usedSymsOfMap m" by (auto simp: usedSymsOfMap_def)
    then show "symReplacement ss j = Some (AffineSymbolExpr j)" by (rule assms(2))
  qed
  then have "those (map (replaceDimsAndSymbols_expr ds ss) (results m)) = Some (results m)"
    by (rule those_map_identity)
  then show ?thesis by (simp add: replaceDimsAndSymbols_def)
qed

lemma remapLoop_identity:
  assumes d: "distinct (take n (drop off ts))" and len: "off + n \<le> length ts"
      and used: "\<forall>i<n. used ! i"
      and l: "remapLoop mk used ts off [0..<n] (0, replicate n None, res0, []) = (a, rm, res, seen)"
      and inj: "inj mk"
  shows "a = n \<and> res = res0 @ take n (drop off ts) \<and> rm = map (\<lambda>i. Some (mk i)) [0..<n]"
proof -
  let ?us = "take n (drop off ts)"
  have f: "filter (\<lambda>i. used ! i) [0..<n] = [0..<n]"
    using used by (simp add: filter_id_conv)
  have m: "map (\<lambda>i. ts ! (i + off)) [0..<n] = ?us"
    by (rule nth_equalityI) (use len in \<open>auto simp: add.commute\<close>)
  have u: "?us = extendDistinct [] (map (\<lambda>i. ts ! (i + off)) (filter (\<lambda>i. used ! i) [0..<n]))"
    unfolding f m using extendDistinct_id [OF d] by simp
  have l': "remapLoop mk used ts off [0..<n]
              (length ([]::Value list), replicate n None, res0 @ [], seenOf mk []) = (a, rm, res, seen)"
    using l by simp
  from remapLoop_closed [OF _ _ _ l' u]
  have a: "a = length ?us" and res: "res = res0 @ ?us" and lrm: "length rm = n"
    and rm: "\<forall>k \<in> set [0..<n]. used ! k \<longrightarrow>
               (\<exists>q<length ?us. rm ! k = Some (mk q) \<and> ?us ! q = ts ! (k + off))"
    by simp_all
  have lu: "length ?us = n" using len by simp
  have "rm = map (\<lambda>i. Some (mk i)) [0..<n]"
  proof (rule nth_equalityI)
    show "length rm = length (map (\<lambda>i. Some (mk i)) [0..<n])" using lrm by simp
  next
    fix k assume "k < length rm"
    with lrm have k: "k < n" by simp
    then have "k \<in> set [0..<n]" and "used ! k" using used by simp_all
    with rm have "\<exists>q<length ?us. rm ! k = Some (mk q) \<and> ?us ! q = ts ! (k + off)" by blast
    then obtain q where q: "q < length ?us" "rm ! k = Some (mk q)" "?us ! q = ts ! (k + off)"
      by blast
    have "?us ! k = ts ! (k + off)" using k len by (simp add: add.commute)
    with q(1,3) k lu d have "q = k" using nth_eq_iff_index_eq [of ?us q k] by simp
    with q(2) k show "rm ! k = map (\<lambda>i. Some (mk i)) [0..<n] ! k" by simp
  qed
  with a res lu show ?thesis by simp
qed

lemma canonicalize_identity:
  assumes v: "validMap m" and n: "getNumInputs m = length ts"
      and ud: "usedDimsOfMap m = {..<numDims m}" and us: "usedSymsOfMap m = {..<numSymbols m}"
      and d: "distinct ts"
      and nv: "list_all (\<lambda>v. \<not> isValidSymbol v) (take (numDims m) ts)"
  shows "canonicalizeMapAndOperands m ts = Some (m, ts)"
proof (cases "ts = []")
  case True
  then show ?thesis by (simp add: canonicalizeMapAndOperands_def)
next
  case False
  let ?nd = "numDims m" and ?ns = "numSymbols m"
  have le: "?nd \<le> length ts" and ls: "length ts = ?nd + ?ns"
    using n by (simp_all add: getNumInputs_def)
  have fD: "filter (\<lambda>v. \<not> isValidSymbol v) (take ?nd ts) = take ?nd ts"
    and fV: "filter isValidSymbol (take ?nd ts) = []"
    using nv by (simp_all add: filter_id_conv filter_empty_conv list_all_iff)
  have kp: "\<And>k. k < ?nd \<Longrightarrow> keptDimPos ts k = k \<and> \<not> isValidSymbol (ts ! k)"
  proof -
    fix k assume k: "k < ?nd"
    have "set (take k ts) \<subseteq> set (take ?nd ts)"
      using k by (intro set_take_subset_set_take) simp
    then have "\<forall>v \<in> set (take k ts). \<not> isValidSymbol v"
      using nv by (auto simp: list_all_iff)
    then have "filter (\<lambda>v. \<not> isValidSymbol v) (take k ts) = take k ts" by (simp add: filter_id_conv)
    moreover have "ts ! k \<in> set (take ?nd ts)" using k le by (auto simp: in_set_conv_nth)
    ultimately show "keptDimPos ts k = k \<and> \<not> isValidSymbol (ts ! k)"
      using nv k le by (simp add: keptDimPos_def list_all_iff)
  qed
  let ?dr = "map (\<lambda>k. Some (if isValidSymbol (ts ! k)
                                then AffineSymbolExpr (numSymbols m + promotedPos ts k)
                                else AffineDimExpr (keptDimPos ts k))) [0..<numDims m]"
  from canonicalizePromotedSymbols_spec [OF v n False] obtain m1 where
    cps: "canonicalizePromotedSymbols m ts = Some (m1, take ?nd ts @ drop ?nd ts @ [])"
    and m1: "replaceDimsAndSymbols m ?dr [] (length (take ?nd ts)) (?ns + length ([]::Value list)) = Some m1"
    unfolding fD fV by blast
  have "replaceDimsAndSymbols m ?dr [] ?nd ?ns = Some m"
    by (rule replaceMap_identity)
       (use ud kp in \<open>auto simp: dimReplacement_def symReplacement_def\<close>)
  with m1 le have "m1 = m" by simp
  with cps have cps': "canonicalizePromotedSymbols m ts = Some (m, ts)" by simp
  from usedBits_of_validMap [OF v] obtain udb usb where
    w: "walkExprs_markUsed (results m) (replicate ?nd False, replicate ?ns False) = Some (udb, usb)"
    and bits: "\<forall>i < ?nd. udb ! i = (i \<in> usedDimsOfMap m)" "\<forall>j < ?ns. usb ! j = (j \<in> usedSymsOfMap m)"
    by blast
  obtain a rmd r1 sd where
    l1: "remapLoop AffineDimExpr udb ts 0 [0..<?nd] (0, replicate ?nd None, [], []) = (a, rmd, r1, sd)"
    by (metis prod_cases4)
  have i1: "a = ?nd \<and> r1 = [] @ take ?nd (drop 0 ts) \<and> rmd = map (\<lambda>i. Some (AffineDimExpr i)) [0..<?nd]"
    by (rule remapLoop_identity [OF _ _ _ l1])
       (use d le bits ud in \<open>auto simp: inj_def intro: distinct_take\<close>)
  obtain b rms r2 ss where
    l2: "remapLoop AffineSymbolExpr usb ts ?nd [0..<?ns] (0, replicate ?ns None, r1, []) = (b, rms, r2, ss)"
    by (metis prod_cases4)
  have i2: "b = ?ns \<and> r2 = r1 @ take ?ns (drop ?nd ts)
            \<and> rms = map (\<lambda>i. Some (AffineSymbolExpr i)) [0..<?ns]"
    by (rule remapLoop_identity [OF _ _ _ l2])
       (use d ls bits us in \<open>auto simp: inj_def intro: distinct_take distinct_drop\<close>)
  have r2: "r2 = ts" using i1 i2 ls by (simp add: take_all)
  have rep: "replaceDimsAndSymbols m rmd rms ?nd ?ns = Some m"
    by (rule replaceMap_identity)
       (use ud us i1 i2 in \<open>auto simp: dimReplacement_def symReplacement_def\<close>)
  show ?thesis
    using False n cps' w l1 l2 i1 i2 r2 rep by (simp add: canonicalizeMapAndOperands_def)
qed


lemma composeOperands_dims:
  "list_all (\<lambda>t. dyn_cast_AffineApplyOp t = None) ds \<Longrightarrow>
   distinct (reorderedDims this @ ds) \<Longrightarrow>
   dimValueToPosition this = zip (reorderedDims this) [0..<length (reorderedDims this)] \<Longrightarrow>
   i + length ds \<le> nb \<Longrightarrow>
   composeOperands nested nb i (ds @ rest) (aux, this)
     = composeOperands nested nb (i + length ds) rest
         (aux @ map AffineDimExpr
                  [length (reorderedDims this)..<length (reorderedDims this) + length ds],
          this \<lparr> dimValueToPosition :=
                   zip (reorderedDims this @ ds) [0..<length (reorderedDims this @ ds)],
                 reorderedDims := reorderedDims this @ ds \<rparr>)"
proof (induction ds arbitrary: i aux this)
  case Nil
  have "this \<lparr> dimValueToPosition := dimValueToPosition this \<rparr> = this" by simp
  then have "this \<lparr> dimValueToPosition :=
        zip (reorderedDims this) [0..<length (reorderedDims this)] \<rparr> = this"
    unfolding Nil.prems(3) [symmetric] .
  then show ?case by simp
next
  case (Cons t ds)
  from Cons.prems(1) have t: "dyn_cast_AffineApplyOp t = None"
    and r: "list_all (\<lambda>t. dyn_cast_AffineApplyOp t = None) ds" by simp_all
  from Cons.prems(4) have lt: "i < nb" and le: "(i + 1) + length ds \<le> nb" by simp_all
  let ?len = "length (reorderedDims this)"
  let ?this1 = "this \<lparr> dimValueToPosition := dimValueToPosition this @ [(t, ?len)],
                       reorderedDims := reorderedDims this @ [t] \<rparr>"
  from Cons.prems(2) have nt: "t \<notin> set (reorderedDims this)"
    and dist: "distinct (reorderedDims ?this1 @ ds)" by auto
  have mo: "map_of (dimValueToPosition this) t = None"
    unfolding Cons.prems(3) using nt by (simp add: map_of_zip_is_None)
  have ld: "length (dimValueToPosition this) = ?len"
    unfolding Cons.prems(3) by simp
  have ro: "renumberOneDim t this = (AffineDimExpr ?len, ?this1)"
    by (simp add: renumberOneDim_def mo ld)
  have z: "dimValueToPosition ?this1
             = zip (reorderedDims ?this1) [0..<length (reorderedDims ?this1)]"
    by (simp add: Cons.prems(3))
  have step: "composeOperands nested nb i ((t # ds) @ rest) (aux, this)
          = composeOperands nested nb (i + 1) (ds @ rest) (aux @ [AffineDimExpr ?len], ?this1)"
    using t lt ro by simp
  have u: "[?len..<?len + length (t # ds)] = ?len # [Suc ?len..<Suc ?len + length ds]"
    by (subst upt_rec) simp
  show ?case
    unfolding step Cons.IH [OF r dist z le, of "aux @ [AffineDimExpr ?len]"] u
    by simp
qed

lemma composeOperands_syms:
  "list_all (\<lambda>t. dyn_cast_AffineApplyOp t = None) ss \<Longrightarrow> nb \<le> i \<Longrightarrow>
   composeOperands nested nb i ss (aux, this)
     = Some (aux, this \<lparr> concatenatedSymbols := concatenatedSymbols this @ ss \<rparr>)"
proof (induction ss arbitrary: i this)
  case Nil
  then show ?case by simp
next
  case (Cons t ss)
  from Cons.prems(1) have t: "dyn_cast_AffineApplyOp t = None"
    and r: "list_all (\<lambda>t. dyn_cast_AffineApplyOp t = None) ss" by simp_all
  from Cons.prems(2) have le: "nb \<le> i + 1" and nlt: "\<not> i < nb" by simp_all
  have step: "composeOperands nested nb i (t # ss) (aux, this)
          = composeOperands nested nb (i + 1) ss
              (aux, this \<lparr> concatenatedSymbols := concatenatedSymbols this @ [t] \<rparr>)"
    using t nlt by simp
  show ?case unfolding step Cons.IH [OF r le] by simp
qed

lemma compose_with_identity:
  "AffineMap_compose m \<lparr> numDims = numDims m, numSymbols = 0,
                          results = map AffineDimExpr [0..<numDims m] \<rparr> = Some m"
proof -
  let ?nd = "numDims m" and ?ns = "numSymbols m"
  let ?aux = "\<lparr> numDims = ?nd, numSymbols = 0, results = map AffineDimExpr [0..<?nd] \<rparr>"
  let ?newDims = "map (\<lambda>idx. Some (AffineDimExpr idx)) [0..<?nd]"
  let ?newSymbols = "replicate ?ns (None :: AffineExpr option)"
  have "replaceDimsAndSymbols ?aux ?newDims ?newSymbols (numDims ?aux) (numSymbols ?aux) = Some ?aux"
    by (rule replaceMap_identity)
       (auto simp: usedDimsOfMap_def usedSymsOfMap_def dimReplacement_def)
  then have "those (map (replaceDimsAndSymbols_expr ?newDims ?newSymbols) (map AffineDimExpr [0..<?nd]))
               = Some (map AffineDimExpr [0..<?nd])"
    by (auto simp: replaceDimsAndSymbols_def split: option.splits)
  then have n: "replaceDimsAndSymbols ?aux ?newDims ?newSymbols ?nd ?ns
      = Some \<lparr> numDims = ?nd, numSymbols = ?ns, results = map AffineDimExpr [0..<?nd] \<rparr>"
    by (simp add: replaceDimsAndSymbols_def)
  have "\<And>e. replaceDimsAndSymbols_expr (map Some (map AffineDimExpr [0..<?nd])) [] e = Some e"
    by (rule replace_identity) (auto simp: dimReplacement_def symReplacement_def)
  then have "those (map (replaceDimsAndSymbols_expr (map Some (map AffineDimExpr [0..<?nd])) [])
                        (results m)) = Some (results m)"
    by (intro those_map_identity)
  with n show ?thesis by (simp add: AffineMap_compose_def)
qed


lemma ctor_identity:
  assumes n: "getNumInputs M = length Os"
      and na: "list_all (\<lambda>t. dyn_cast_AffineApplyOp t = None) Os"
      and d: "distinct Os"
      and vs: "list_all isValidSymbol (drop (numDims M) Os)"
      and s: "numDims M = 0 \<or> simplifyAffineMap M = M"
  shows "\<exists>nz. AffineApplyNormalizer_ctor 0 M Os = Some nz \<and> affineMap nz = Some M
            \<and> getOperandsOfNormalizer nz = Os"
proof -
  let ?nd = "numDims M" and ?ns = "numSymbols M"
  let ?ds = "take ?nd Os" and ?ss = "drop ?nd Os"
  let ?nested = "\<lambda>am aops. AffineApplyNormalizer_ctor (0 + 1) am aops"
  let ?this1 = "emptyNormalizer \<lparr> dimValueToPosition := zip ?ds [0..<length ?ds],
                                 reorderedDims := ?ds \<rparr>"
  let ?this2 = "?this1 \<lparr> concatenatedSymbols := ?ss \<rparr>"
  from n have len: "length Os = ?nd + ?ns" by (simp add: getNumInputs_def)
  then have lds: "length ?ds = ?nd" and lss: "length ?ss = ?ns" by simp_all
  have mn: "min (length Os) ?nd = ?nd" using len by simp
  have tb: "take_back ?ns Os = ?ss" by (simp add: take_back_def len)
  have nas: "list_all (\<lambda>t. dyn_cast_AffineApplyOp t = None) ?ss"
    and nad: "list_all (\<lambda>t. dyn_cast_AffineApplyOp t = None) ?ds"
    using na by (auto simp: list_all_iff dest: in_set_dropD in_set_takeD)
  have "\<And>i. i < length ?ss \<Longrightarrow> \<not> isa_and_nonnull_AffineApplyOp (?ss ! i)"
    using nas unfolding list_all_length isa_and_nonnull_AffineApplyOp_def by simp
  then have ind: "indicesFromAffineApplyOp ?ss = []"
    unfolding indicesFromAffineApplyOp_def by (simp add: filter_empty_conv)
  have p: "promoteComposedSymbolsAsDims M (take_back ?ns Os) = Some M"
    unfolding tb promoteComposedSymbolsAsDims_def using vs ind by simp
  have e1: "reorderedDims emptyNormalizer = []" "dimValueToPosition emptyNormalizer = []"
    "concatenatedSymbols emptyNormalizer = []"
    by (simp_all add: emptyNormalizer_def)
  have dd: "distinct (reorderedDims emptyNormalizer @ ?ds)" using d by (simp add: e1)
  have z0: "dimValueToPosition emptyNormalizer
      = zip (reorderedDims emptyNormalizer) [0..<length (reorderedDims emptyNormalizer)]"
    by (simp add: e1)
  have le0: "0 + length ?ds \<le> ?nd" by (simp add: lds)
  have c1: "composeOperands ?nested ?nd 0 (?ds @ ?ss) ([], emptyNormalizer)
      = composeOperands ?nested ?nd (0 + length ?ds) ?ss
          ([] @ map AffineDimExpr [length (reorderedDims emptyNormalizer)
                       ..<length (reorderedDims emptyNormalizer) + length ?ds],
           emptyNormalizer \<lparr> dimValueToPosition :=
                zip (reorderedDims emptyNormalizer @ ?ds)
                    [0..<length (reorderedDims emptyNormalizer @ ?ds)],
              reorderedDims := reorderedDims emptyNormalizer @ ?ds \<rparr>)"
    by (rule composeOperands_dims [OF nad dd z0 le0])
  have c1': "composeOperands ?nested ?nd 0 Os ([], emptyNormalizer)
      = composeOperands ?nested ?nd ?nd ?ss (map AffineDimExpr [0..<?nd], ?this1)"
    using c1 by (simp add: e1 mn)
  have c2: "composeOperands ?nested ?nd ?nd ?ss (map AffineDimExpr [0..<?nd], ?this1)
      = Some (map AffineDimExpr [0..<?nd],
              ?this1 \<lparr> concatenatedSymbols := concatenatedSymbols ?this1 @ ?ss \<rparr>)"
    by (rule composeOperands_syms [OF nas]) simp
  have c: "composeOperands ?nested ?nd 0 Os ([], emptyNormalizer)
      = Some (map AffineDimExpr [0..<?nd], ?this2)"
    unfolding c1' c2 by (simp add: e1)
  have le: "?nd \<le> length Os" using len by simp
  have k: "0 + 1 \<le> kMaxAffineApplyDepth" by (simp add: kMaxAffineApplyDepth_def)
  have ops: "getOperandsOfNormalizer (?this2 \<lparr> affineMap := Some M \<rparr>) = Os"
    by (simp add: getOperandsOfNormalizer_def)
  show ?thesis
  proof (cases "?nd = 0")
    case True
    have "AffineApplyNormalizer_ctor 0 M Os = Some (?this2 \<lparr> affineMap := Some M \<rparr>)"
      apply (subst AffineApplyNormalizer_ctor.simps)
      unfolding Let_def p
      using n k le c True by simp
    with ops show ?thesis by simp
  next
    case False
    with s have sm: "simplifyAffineMap M = M" by simp
    have ne: "map AffineDimExpr [0..<?nd] \<noteq> []" using False by simp
    have cs: "length (concatenatedSymbols ?this2) = ?ns" by (simp add: len)
    have dv: "length (dimValueToPosition ?this2) = ?nd" by (simp add: mn)
    have cmp: "AffineMap_compose M \<lparr> numDims = ?nd, numSymbols = 0,
                          results = map AffineDimExpr [0..<?nd] \<rparr> = Some M"
      by (rule compose_with_identity)
    have "AffineApplyNormalizer_ctor 0 M Os = Some (?this2 \<lparr> affineMap := Some M \<rparr>)"
      apply (subst AffineApplyNormalizer_ctor.simps)
      unfolding Let_def p option.case
      using n k le ne by (simp only: c cs dv cmp sm if_False if_True option.case prod.case
          not_not diff_self_eq_0 le_refl simp_thms)
    with ops show ?thesis by simp
  qed
qed


text \<open>
  C3. Let a map have as many inputs as there are operands, let no operand be the result
  of an \<open>affine.apply\<close>, let every dimension and symbol position of the map be referred
  to by a result, and let no value occur twice among the operands. If, in addition, no
  dimension operand is a valid symbol, every symbol operand is a valid symbol, and the map
  has no dimension or is left unchanged by \<open>simplifyAffineMap\<close>, then
  \<open>composeAffineMapAndOperands\<close>, which composes and then canonicalizes, returns the
  same map and the same operands.
\<close>

theorem compose_canonical_is_identity:
  assumes n: "getNumInputs M = length Os"
      and na: "\<not> list_ex isa_and_nonnull_AffineApplyOp Os"
      and ud: "usedDimsOfMap M = {..<numDims M}"
      and us: "usedSymsOfMap M = {..<numSymbols M}"
      and d: "distinct Os"
      and nv: "list_all (\<lambda>v. \<not> isValidSymbol v) (take (numDims M) Os)"
      and vs: "list_all isValidSymbol (drop (numDims M) Os)"
      and s: "numDims M = 0 \<or> simplifyAffineMap M = M"
  shows "composeAffineMapAndOperands M Os = Some (M, Os)"
proof -
  from na have na': "list_all (\<lambda>t. dyn_cast_AffineApplyOp t = None) Os"
    unfolding list_all_iff list_ex_iff isa_and_nonnull_AffineApplyOp_def by blast
  from ctor_identity [OF n na' d vs s] obtain nz where
    c: "AffineApplyNormalizer_ctor 0 M Os = Some nz" and a: "affineMap nz = Some M"
    and g: "getOperandsOfNormalizer nz = Os" by (elim exE conjE) (rule that)
  have v: "validMap M" by (simp add: validMap_def ud us)
  have "canonicalizeMapAndOperands M Os = Some (M, Os)"
    by (rule canonicalize_identity [OF v n ud us d nv])
  then show ?thesis by (simp add: composeAffineMapAndOperands_def c a g)
qed



theorem compose_canonical_is_identity_witness:
  "getNumInputs \<lparr> numDims = 1, numSymbols = 1,
              results = [AffineBinaryOpExpr Add (AffineDimExpr 0) (AffineSymbolExpr 0)] \<rparr>
     = length [BlockArgument 0 IndexType False, BlockArgument 1 IndexType True]
   \<and> \<not> list_ex isa_and_nonnull_AffineApplyOp
           [BlockArgument 0 IndexType False, BlockArgument 1 IndexType True]
   \<and> distinct [BlockArgument 0 IndexType False, BlockArgument 1 IndexType True]
   \<and> composeAffineMapAndOperands
         \<lparr> numDims = 1, numSymbols = 1,
            results = [AffineBinaryOpExpr Add (AffineDimExpr 0) (AffineSymbolExpr 0)] \<rparr>
         [BlockArgument 0 IndexType False, BlockArgument 1 IndexType True]
       = Some (\<lparr> numDims = 1, numSymbols = 1,
                  results = [AffineBinaryOpExpr Add (AffineDimExpr 0) (AffineSymbolExpr 0)] \<rparr>,
               [BlockArgument 0 IndexType False, BlockArgument 1 IndexType True])"
proof -
  let ?m = "\<lparr> numDims = 1, numSymbols = 1,
              results = [AffineBinaryOpExpr Add (AffineDimExpr 0) (AffineSymbolExpr 0)] \<rparr>"
  let ?ts = "[BlockArgument 0 IndexType False, BlockArgument 1 IndexType True]"
  have n: "getNumInputs ?m = length ?ts" by (simp add: getNumInputs_def)
  have na: "\<not> list_ex isa_and_nonnull_AffineApplyOp ?ts"
    by (simp add: isa_and_nonnull_AffineApplyOp_def)
  have ud: "usedDimsOfMap ?m = {..<numDims ?m}" by (auto simp: usedDimsOfMap_def)
  have us: "usedSymsOfMap ?m = {..<numSymbols ?m}" by (auto simp: usedSymsOfMap_def)
  have d: "distinct ?ts" by simp
  have nv: "list_all (\<lambda>v. \<not> isValidSymbol v) (take (numDims ?m) ?ts)" by simp
  have vs: "list_all isValidSymbol (drop (numDims ?m) ?ts)" by (simp add: isIndex_def)
  have s: "numDims ?m = 0 \<or> simplifyAffineMap ?m = ?m" by code_simp
  from compose_canonical_is_identity [OF n na ud us d nv vs s] n na d
  show ?thesis by simp
qed

text \<open>
  Without the condition on the dimension operands the result differs: the map
  \<open>(d0) -> (d0)\<close> on a function argument of type index has no \<open>affine.apply\<close>
  operand, no unused position and no duplicate operand; the argument is a valid symbol,
  and \<open>canonicalizePromotedSymbols\<close> turns it into a symbol operand, so the result is
  the map \<open>()[s0] -> (s0)\<close>.
\<close>

theorem compose_canonical_promotes_symbol_counterexample:
  "getNumInputs \<lparr> numDims = 1, numSymbols = 0, results = [AffineDimExpr 0] \<rparr>
     = length [BlockArgument 0 IndexType True]
   \<and> \<not> list_ex isa_and_nonnull_AffineApplyOp [BlockArgument 0 IndexType True]
   \<and> usedDimsOfMap \<lparr> numDims = 1, numSymbols = 0, results = [AffineDimExpr 0] \<rparr>
       = {..<numDims \<lparr> numDims = 1, numSymbols = 0, results = [AffineDimExpr 0] \<rparr>}
   \<and> usedSymsOfMap \<lparr> numDims = 1, numSymbols = 0, results = [AffineDimExpr 0] \<rparr>
       = {..<numSymbols \<lparr> numDims = 1, numSymbols = 0, results = [AffineDimExpr 0] \<rparr>}
   \<and> distinct [BlockArgument 0 IndexType True]
   \<and> composeAffineMapAndOperands
         \<lparr> numDims = 1, numSymbols = 0, results = [AffineDimExpr 0] \<rparr>
         [BlockArgument 0 IndexType True]
       = Some (\<lparr> numDims = 0, numSymbols = 1, results = [AffineSymbolExpr 0] \<rparr>,
               [BlockArgument 0 IndexType True])
   \<and> \<lparr> numDims = 0, numSymbols = 1, results = [AffineSymbolExpr 0] \<rparr>
       \<noteq> \<lparr> numDims = 1, numSymbols = 0, results = [AffineDimExpr 0] \<rparr>"
proof -
  have c: "composeAffineMapAndOperands
         \<lparr> numDims = 1, numSymbols = 0, results = [AffineDimExpr 0] \<rparr>
         [BlockArgument 0 IndexType True]
       = Some (\<lparr> numDims = 0, numSymbols = 1, results = [AffineSymbolExpr 0] \<rparr>,
               [BlockArgument 0 IndexType True])"
    by code_simp
  show ?thesis
    unfolding c
    by (auto simp: getNumInputs_def isa_and_nonnull_AffineApplyOp_def usedDimsOfMap_def
        usedSymsOfMap_def)
qed

end
